theory Spec2Isabelle
  imports Complex_Main
begin

section \<open>Function records and similarity pairs\<close>

text \<open>
  The two analysis scripts, \<^verbatim>\<open>find_duplicate_functions.py\<close> and
  \<^verbatim>\<open>find_near_duplicate_functions.py\<close>, pass Python dicts around. An occurrence is
  the dict \<^verbatim>\<open>{"path", "name", "lineno"}\<close>; the near-duplicate tool adds
  \<^verbatim>\<open>"normalized_dump"\<close>. A line number is an integer or \<^verbatim>\<open>None\<close>.
\<close>

record occurrence =
  path :: string
  name :: string
  lineno :: "int option"

record func = occurrence +
  normalized_dump :: string

text \<open>The dict \<^verbatim>\<open>{"a": a, "b": b, "ratio": r}\<close> appended to \<^verbatim>\<open>pairs\<close>.\<close>

record pair =
  p_a :: func
  p_b :: func
  p_ratio :: real

section \<open>Syntax trees\<close>

text \<open>
  Both tools work on the trees of Python's \<^verbatim>\<open>ast\<close> module. The model keeps the node
  classes the code tells apart and one constructor for all the others:
  \<^item> \<open>Name pos id ctx\<close> is \<^verbatim>\<open>ast.Name\<close>; the context (\<^verbatim>\<open>Load\<close>, \<^verbatim>\<open>Store\<close>, \<^verbatim>\<open>Del\<close>) is a
    node without fields and without position, kept as its class name;
  \<^item> \<open>Arg pos arg annotation\<close> is \<^verbatim>\<open>ast.arg\<close>;
  \<^item> \<open>Arguments posonlyargs args vararg kwonlyargs kw_defaults kwarg defaults\<close> is
    \<^verbatim>\<open>ast.arguments\<close>, which has no position attributes;
  \<^item> \<open>FunctionDef async pos name args body decorator_list returns\<close> is
    \<^verbatim>\<open>ast.FunctionDef\<close> or, with the flag set, \<^verbatim>\<open>ast.AsyncFunctionDef\<close>; its field
    \<^verbatim>\<open>type_comment\<close> is left out, both tools call \<^verbatim>\<open>ast.parse\<close> without type comments
    and it is \<^verbatim>\<open>None\<close> in every tree they see;
  \<^item> \<open>Other label pos fields\<close> is any other node: its class name together with its
    fields that are not nodes, its position attributes when the class has them, and its
    node-valued fields in order, each as the list of its nodes.
  A position is \<^verbatim>\<open>(lineno, col_offset, end_lineno, end_col_offset)\<close>, each an integer or
  \<^verbatim>\<open>None\<close>.
\<close>

type_synonym position = "int option \<times> int option \<times> int option \<times> int option"

datatype ast =
    Name position string string
  | Arg position string "ast option"
  | Arguments "ast list" "ast list" "ast option" "ast list" "ast option list" "ast option" "ast list"
  | FunctionDef bool position string ast "ast list" "ast list" "ast option"
  | Other string "position option" "ast list list"

fun opt_list :: "'a option \<Rightarrow> 'a list" where
  "opt_list None = []"
| "opt_list (Some x) = [x]"

text \<open>\<^verbatim>\<open>ast.iter_child_nodes\<close>: the nodes in the fields of a node, in field order.\<close>

primrec children :: "ast \<Rightarrow> ast list" where
  "children (Name p x c) = []"
| "children (Arg p x ann) = opt_list ann"
| "children (Arguments po ar va ko kd kw de) =
     po @ ar @ opt_list va @ ko @ concat (map opt_list kd) @ opt_list kw @ de"
| "children (FunctionDef asy p nm ar body decs ret) = ar # body @ decs @ opt_list ret"
| "children (Other l p fss) = concat fss"

text \<open>
  \<^verbatim>\<open>ast.walk\<close> keeps a queue, starting with the node itself: it pops the first node,
  appends that node's children and yields the node. The queue shrinks in the sum of the
  sizes of its trees, each counted one larger.
\<close>

definition weight :: "ast list \<Rightarrow> nat" where
  "weight ts = sum_list (map (\<lambda>t. Suc (size t)) ts)"

function bfs :: "ast list \<Rightarrow> ast list" where
  "bfs [] = []"
| "bfs (t # todo) = t # bfs (todo @ children t)"
  by pat_completeness auto
termination
proof (relation "measure weight")
  show "wf (measure weight)" by simp
next
  fix t :: ast and todo :: "ast list"
  have nil: "weight [] = 0" by (simp add: weight_def)
  have cons: "weight (x # xs) = Suc (size x) + weight xs" for x xs by (simp add: weight_def)
  have app: "weight (xs @ ys) = weight xs + weight ys" for xs ys by (simp add: weight_def)
  have wl: "weight ts \<le> size_list size ts" for ts
    by (induction ts) (simp_all add: nil cons)
  have wo: "weight (opt_list u) \<le> size_option size u" for u
    by (cases u) (simp_all add: nil cons)
  have wos: "weight (concat (map opt_list us)) \<le> size_list (size_option size) us" for us
  proof (induction us)
    case Nil
    then show ?case by (simp add: nil)
  next
    case (Cons u us)
    with wo [of u] show ?case by (simp add: app)
  qed
  have wc: "weight (concat tss) \<le> size_list (size_list size) tss" for tss
  proof (induction tss)
    case Nil
    then show ?case by (simp add: nil)
  next
    case (Cons ts tss)
    with wl [of ts] show ?case by (simp add: app)
  qed
  have "weight (children t) \<le> size t"
  proof (cases t)
    case (Name p x c)
    then show ?thesis by (simp add: nil)
  next
    case (Arg p x ann)
    then show ?thesis using wo [of ann] by simp
  next
    case (Arguments po ar va ko kd kw de)
    then show ?thesis
      using wl [of po] wl [of ar] wo [of va] wl [of ko] wos [of kd] wo [of kw] wl [of de]
      by (simp add: app)
  next
    case (FunctionDef asy p nm ar body decs ret)
    then show ?thesis
      using wl [of body] wl [of decs] wo [of ret] by (simp add: app cons)
  next
    case (Other l p fss)
    then show ?thesis using wc [of fss] by simp
  qed
  then show "(todo @ children t, t # todo) \<in> measure weight"
    by (simp add: app cons)
qed

definition walk :: "ast \<Rightarrow> ast list" where
  "walk node = bfs [node]"

text \<open>
  The loop that both tools run over \<^verbatim>\<open>ast.walk\<close>: every node that has the attributes
  \<^verbatim>\<open>lineno\<close>, \<^verbatim>\<open>col_offset\<close>, \<^verbatim>\<open>end_lineno\<close> and \<^verbatim>\<open>end_col_offset\<close> gets them set to
  \<^verbatim>\<open>None\<close>.
\<close>

definition no_position :: position where
  "no_position = (None, None, None, None)"

primrec strip :: "ast \<Rightarrow> ast" where
  "strip (Name p x c) = Name no_position x c"
| "strip (Arg p x ann) = Arg no_position x (map_option strip ann)"
| "strip (Arguments po ar va ko kd kw de) =
     Arguments (map strip po) (map strip ar) (map_option strip va) (map strip ko)
       (map (map_option strip) kd) (map_option strip kw) (map strip de)"
| "strip (FunctionDef asy p nm ar body decs ret) =
     FunctionDef asy no_position nm (strip ar) (map strip body) (map strip decs) (map_option strip ret)"
| "strip (Other l p fss) = Other l (map_option (\<lambda>_. no_position) p) (map (map strip) fss)"

text \<open>
  Two trees are structurally identical except for their position attributes: same
  classes, same names and labels, fields related pairwise, positions arbitrary.
\<close>

inductive same_shape :: "ast \<Rightarrow> ast \<Rightarrow> bool" where
  "same_shape (Name p x c) (Name p' x c)"
| "rel_option same_shape ann ann' \<Longrightarrow> same_shape (Arg p x ann) (Arg p' x ann')"
| "list_all2 same_shape po po' \<Longrightarrow> list_all2 same_shape ar ar' \<Longrightarrow> rel_option same_shape va va' \<Longrightarrow>
   list_all2 same_shape ko ko' \<Longrightarrow> list_all2 (rel_option same_shape) kd kd' \<Longrightarrow>
   rel_option same_shape kw kw' \<Longrightarrow> list_all2 same_shape de de' \<Longrightarrow>
   same_shape (Arguments po ar va ko kd kw de) (Arguments po' ar' va' ko' kd' kw' de')"
| "same_shape ar ar' \<Longrightarrow> list_all2 same_shape body body' \<Longrightarrow> list_all2 same_shape decs decs' \<Longrightarrow>
   rel_option same_shape ret ret' \<Longrightarrow>
   same_shape (FunctionDef asy p nm ar body decs ret) (FunctionDef asy p' nm ar' body' decs' ret')"
| "list_all2 (list_all2 same_shape) fss fss' \<Longrightarrow> (p = None \<longleftrightarrow> p' = None) \<Longrightarrow>
   same_shape (Other l p fss) (Other l p' fss')"

text \<open>
  \<^verbatim>\<open>isinstance(node, (ast.FunctionDef, ast.AsyncFunctionDef))\<close>, \<^verbatim>\<open>node.name\<close> and
  \<^verbatim>\<open>getattr(node, "lineno", None)\<close>.
\<close>

fun is_function :: "ast \<Rightarrow> bool" where
  "is_function (FunctionDef asy p nm ar body decs ret) = True"
| "is_function _ = False"

fun fn_name :: "ast \<Rightarrow> string" where
  "fn_name (FunctionDef asy p nm ar body decs ret) = nm"
| "fn_name _ = []"

fun fn_lineno :: "ast \<Rightarrow> int option" where
  "fn_lineno (FunctionDef asy p nm ar body decs ret) = fst p"
| "fn_lineno _ = None"

section \<open>Files and runs\<close>

text \<open>
  What reading and parsing one file gives: \<^verbatim>\<open>read_text\<close> raises, \<^verbatim>\<open>ast.parse\<close> raises
  \<^verbatim>\<open>SyntaxError\<close>, \<^verbatim>\<open>ast.parse\<close> raises another exception (\<^verbatim>\<open>RecursionError\<close> or
  \<^verbatim>\<open>MemoryError\<close> on deeply nested source), or the body of the module.
\<close>

datatype file_result = Unreadable | Syntax_error | Parse_crash | Parsed "ast list"

text \<open>
  A run ends with \<^verbatim>\<open>SystemExit("Root not found: ...")\<close>; with an exception that nothing
  catches, raised before the first report is opened (\<open>Uncaught_exception\<close>); with an
  exception that nothing catches, raised by one of the last statements of \<^verbatim>\<open>main\<close>,
  which write the two reports and print their paths (\<open>Report_failed\<close>; a report may then
  exist in part or in whole); or by returning 0 after them. The interpreter turns each of
  the three failures into exit status 1.
\<close>

datatype failure = Root_not_found | Uncaught_exception | Report_failed

fun exit_code :: "failure + 'a \<Rightarrow> nat" where
  "exit_code (Inl x) = 1"
| "exit_code (Inr r) = 0"

text \<open>
  The environment of a run, from the point where the arguments are parsed and the two
  paths resolved. Every statement of \<^verbatim>\<open>main\<close> that can raise outside a \<^verbatim>\<open>try\<close> has its
  entry:
  \<^item> \<open>root_exists\<close>: what \<^verbatim>\<open>root.exists()\<close> returns;
  \<^item> \<open>out_dir_ok\<close>: \<^verbatim>\<open>out_dir.mkdir(parents=True, exist_ok=True)\<close> succeeds (it raises
    when the path is an existing file or cannot be created);
  \<^item> \<open>listing_ok\<close>: \<^verbatim>\<open>sorted(iter_py_files(root))\<close> completes (\<^verbatim>\<open>Path.is_file\<close> re-raises
    an \<^verbatim>\<open>OSError\<close> such as a denied permission); the list is built before the first
    file is read;
  \<^item> \<open>files\<close>: the eligible files in sorted order, each with what reading and parsing
    it gives;
  \<^item> \<open>reports_ok\<close>: \<^verbatim>\<open>json_out.write_text\<close>, \<^verbatim>\<open>write_markdown\<close> and the two \<^verbatim>\<open>print\<close>
    calls after them all complete (a write raises when the directory exists and is
    read-only, or when the device is full).
\<close>

record env =
  root_exists :: bool
  out_dir_ok :: bool
  listing_ok :: bool
  files :: "(string \<times> file_result) list"
  reports_ok :: bool

text \<open>The files that were read and parsed.\<close>

definition is_parsed :: "string \<times> file_result \<Rightarrow> bool" where
  "is_parsed f \<longleftrightarrow> (case snd f of Parsed body \<Rightarrow> True | _ \<Rightarrow> False)"

section \<open>Floating-point values of the near-duplicate tool\<close>

text \<open>
  \<^verbatim>\<open>--threshold\<close> is parsed by \<^verbatim>\<open>float\<close>, which also accepts \<^verbatim>\<open>inf\<close>,
  \<^verbatim>\<open>-inf\<close> and \<^verbatim>\<open>nan\<close>. A similarity ratio is always a finite number, so only the
  threshold needs the special values. \<open>float_ge r t\<close> is Python's \<^verbatim>\<open>r >= t\<close>.
\<close>

datatype pyfloat = Finite real | PosInf | NegInf | NaN

fun float_ge :: "real \<Rightarrow> pyfloat \<Rightarrow> bool" where
  "float_ge r (Finite t) = (t \<le> r)"
| "float_ge r PosInf = False"
| "float_ge r NegInf = True"
| "float_ge r NaN = False"

text \<open>
  \<^verbatim>\<open>min(la, lb) * 0.35\<close> is a product of IEEE doubles. The literal \<^verbatim>\<open>0.35\<close> is the
  double \<open>6305039478318694 / 2^54\<close>, the integer operand is converted to the nearest
  double, and the exact product is rounded to 53 significant bits, ties to even.
  \<open>round53\<close> rounds a natural number that way; the product is rounded on its
  numerator over \<open>2^54\<close>.
\<close>

fun bitlen :: "nat \<Rightarrow> nat" where
  "bitlen n = (if n = 0 then 0 else Suc (bitlen (n div 2)))"

declare bitlen.simps [simp del]

definition round53 :: "nat \<Rightarrow> nat" where
  "round53 n =
     (let b = bitlen n in
      if b \<le> 53 then n
      else
        let s = b - 53; q = n div 2 ^ s; r = n mod 2 ^ s in
        (if 2 ^ s < 2 * r \<or> (2 * r = 2 ^ s \<and> odd q) then q + 1 else q) * 2 ^ s)"

definition float_mul_035 :: "nat \<Rightarrow> real" where
  "float_mul_035 m = real (round53 (round53 m * 6305039478318694)) / 2 ^ 54"

section \<open>Similarity search\<close>

text \<open>\<^verbatim>\<open>bucket_key(s) = len(s) // 120\<close>.\<close>

definition bucket_key :: "string \<Rightarrow> int" where
  "bucket_key s = int (length s) div 120"

text \<open>
  Both tools collect into a \<^verbatim>\<open>defaultdict(list)\<close>: an insertion-ordered association
  list from keys to lists. \<open>dict_append k v\<close> is \<^verbatim>\<open>d[k].append(v)\<close>, \<open>dict_get\<close> is
  \<^verbatim>\<open>d.get(k, [])\<close>.
\<close>

fun dict_append :: "'k \<Rightarrow> 'v \<Rightarrow> ('k \<times> 'v list) list \<Rightarrow> ('k \<times> 'v list) list" where
  "dict_append k v [] = [(k, [v])]"
| "dict_append k v ((k', vs) # rest) =
     (if k' = k then (k', vs @ [v]) # rest else (k', vs) # dict_append k v rest)"

definition dict_get :: "('k \<times> 'v list) list \<Rightarrow> 'k \<Rightarrow> 'v list" where
  "dict_get m k = (case map_of m k of None \<Rightarrow> [] | Some vs \<Rightarrow> vs)"

text \<open>
  \<^verbatim>\<open>for f in funcs: buckets[bucket_key(f["normalized_dump"])].append(f)\<close>
\<close>

type_synonym buckets = "(int \<times> func list) list"

definition build_buckets :: "func list \<Rightarrow> buckets" where
  "build_buckets funcs =
     foldl (\<lambda>m f. dict_append (bucket_key (normalized_dump f)) f m) [] funcs"

definition bucket_keys :: "buckets \<Rightarrow> int list" where
  "bucket_keys m = sort (map fst m)"

definition candidates :: "buckets \<Rightarrow> int \<Rightarrow> func list" where
  "candidates m k = dict_get m k @ dict_get m (k - 1) @ dict_get m (k + 1)"

text \<open>
  The double loop \<^verbatim>\<open>for i in range(L): for j in range(i + 1, L)\<close> visits the pairs
  \<open>(xs ! i, xs ! j)\<close> with \<open>i < j\<close>, in this order.
\<close>

fun index_pairs :: "'a list \<Rightarrow> ('a \<times> 'a) list" where
  "index_pairs [] = []"
| "index_pairs (x # xs) = map (Pair x) xs @ index_pairs xs"

text \<open>
  What the loop body does with one candidate pair: the two \<^verbatim>\<open>continue\<close>s, or the call
  of \<^verbatim>\<open>SequenceMatcher(None, a, b).ratio()\<close> followed by the threshold test. The ratio
  function of \<^verbatim>\<open>difflib\<close> is a parameter.
\<close>

datatype decision = Skip_same | Skip_length | Below real | Kept real

definition same_occurrence :: "func \<Rightarrow> func \<Rightarrow> bool" where
  "same_occurrence x y \<longleftrightarrow> path x = path y \<and> lineno x = lineno y"

definition length_bound :: "nat \<Rightarrow> nat \<Rightarrow> real" where
  "length_bound la lb = max 120 (float_mul_035 (min la lb))"

definition length_skip :: "nat \<Rightarrow> nat \<Rightarrow> bool" where
  "length_skip la lb \<longleftrightarrow> length_bound la lb < real_of_int \<bar>int la - int lb\<bar>"

definition compare_pair ::
  "(string \<Rightarrow> string \<Rightarrow> real) \<Rightarrow> pyfloat \<Rightarrow> func \<Rightarrow> func \<Rightarrow> decision" where
  "compare_pair ratio threshold x y =
     (if path x = path y \<and> lineno x = lineno y then Skip_same
      else
        let la = length (normalized_dump x); lb = length (normalized_dump y) in
        if length_skip la lb then Skip_length
        else
          let r = ratio (normalized_dump x) (normalized_dump y) in
          if float_ge r threshold then Kept r else Below r)"

text \<open>
  The trace of the search: one entry for every execution of the inner loop body, in order.
  \<^verbatim>\<open>pairs\<close> collects the entries that were kept and is then sorted by descending ratio
  (\<^verbatim>\<open>list.sort\<close> is stable, also with \<^verbatim>\<open>reverse=True\<close>).
\<close>

definition window_trace ::
  "(string \<Rightarrow> string \<Rightarrow> real) \<Rightarrow> pyfloat \<Rightarrow> func list \<Rightarrow> (func \<times> func \<times> decision) list" where
  "window_trace ratio threshold cs =
     map (\<lambda>(x, y). (x, y, compare_pair ratio threshold x y)) (index_pairs cs)"

definition search_trace ::
  "(string \<Rightarrow> string \<Rightarrow> real) \<Rightarrow> pyfloat \<Rightarrow> func list \<Rightarrow> (func \<times> func \<times> decision) list" where
  "search_trace ratio threshold funcs =
     (let buckets = build_buckets funcs in
      concat (map (\<lambda>k. window_trace ratio threshold (candidates buckets k))
                  (bucket_keys buckets)))"

fun emit :: "func \<times> func \<times> decision \<Rightarrow> pair list" where
  "emit (x, y, Kept r) = [\<lparr>p_a = x, p_b = y, p_ratio = r\<rparr>]"
| "emit (x, y, _) = []"

definition found_pairs ::
  "(string \<Rightarrow> string \<Rightarrow> real) \<Rightarrow> pyfloat \<Rightarrow> func list \<Rightarrow> pair list" where
  "found_pairs ratio threshold funcs = concat (map emit (search_trace ratio threshold funcs))"

definition near_pairs ::
  "(string \<Rightarrow> string \<Rightarrow> real) \<Rightarrow> pyfloat \<Rightarrow> func list \<Rightarrow> pair list" where
  "near_pairs ratio threshold funcs =
     sort_key (\<lambda>p. - p_ratio p) (found_pairs ratio threshold funcs)"

text \<open>The JSON report lists \<^verbatim>\<open>pairs[:500]\<close>.\<close>

definition report_pairs ::
  "(string \<Rightarrow> string \<Rightarrow> real) \<Rightarrow> pyfloat \<Rightarrow> func list \<Rightarrow> pair list" where
  "report_pairs ratio threshold funcs = take 500 (near_pairs ratio threshold funcs)"

text \<open>
  The pairs appended while one candidate window is processed. An occurrence is identified
  by path and line; a reported pair, read as unordered, by the set of its two occurrences.
\<close>

definition window_pairs ::
  "(string \<Rightarrow> string \<Rightarrow> real) \<Rightarrow> pyfloat \<Rightarrow> func list \<Rightarrow> pair list" where
  "window_pairs ratio threshold cs = concat (map emit (window_trace ratio threshold cs))"

definition occ_key :: "func \<Rightarrow> string \<times> int option" where
  "occ_key f = (path f, lineno f)"

definition pair_key :: "pair \<Rightarrow> (string \<times> int option) set" where
  "pair_key p = {occ_key (p_a p), occ_key (p_b p)}"

definition reported_once :: "pair list \<Rightarrow> bool" where
  "reported_once ps \<longleftrightarrow> distinct (map pair_key ps)"

section \<open>Near-duplicate normalizer\<close>

text \<open>The decimal digits of \<^verbatim>\<open>f"ARG{i}"\<close> and \<^verbatim>\<open>f"VAR{counter}"\<close>.\<close>

fun str_nat :: "nat \<Rightarrow> string" where
  "str_nat n = (if n < 10 then [''0123456789'' ! n] else str_nat (n div 10) @ [''0123456789'' ! (n mod 10)])"

declare str_nat.simps [simp del]

type_synonym name_map = "string \<rightharpoonup> string"

text \<open>
  The first loop, \<^verbatim>\<open>for i, a in enumerate(n.args.args)\<close>: the name of parameter \<open>i\<close> is
  entered into \<^verbatim>\<open>arg_map\<close> and overwritten with \<^verbatim>\<open>ARGi\<close>. Then \<^verbatim>\<open>vararg\<close> and
  \<^verbatim>\<open>kwarg\<close>, when present, with \<^verbatim>\<open>VARARG\<close> and \<^verbatim>\<open>KWARG\<close>. The block sits in a
  \<^verbatim>\<open>try\<close> whose handler passes: reading \<^verbatim>\<open>.arg\<close> of something that is not an
  \<^verbatim>\<open>arg\<close> node ends it with what was done so far.
\<close>

fun rename_args :: "nat \<Rightarrow> name_map \<Rightarrow> ast list \<Rightarrow> name_map \<times> ast list" where
  "rename_args i m [] = (m, [])"
| "rename_args i m (Arg p x ann # rest) =
     (let (m', rest') = rename_args (Suc i) (m(x \<mapsto> ''ARG'' @ str_nat i)) rest
      in (m', Arg p (''ARG'' @ str_nat i) ann # rest'))"
| "rename_args i m (a # rest) =
     (let (m', rest') = rename_args (Suc i) m rest in (m', a # rest'))"

fun rename_star :: "string \<Rightarrow> name_map \<Rightarrow> ast option \<Rightarrow> (name_map \<times> ast option) option" where
  "rename_star ph m None = Some (m, None)"
| "rename_star ph m (Some (Arg p x ann)) = Some (m(x \<mapsto> ph), Some (Arg p ph ann))"
| "rename_star ph m (Some a) = None"

fun rename_params :: "ast \<Rightarrow> name_map \<times> ast" where
  "rename_params (Arguments po ar va ko kd kw de) =
     (let (m1, ar') = rename_args 0 Map.empty ar in
      case rename_star ''VARARG'' m1 va of
        None \<Rightarrow> (m1, Arguments po ar' va ko kd kw de)
      | Some (m2, va') \<Rightarrow>
          (case rename_star ''KWARG'' m2 kw of
             None \<Rightarrow> (m2, Arguments po ar' va' ko kd kw de)
           | Some (m3, kw') \<Rightarrow> (m3, Arguments po ar' va' ko kd kw' de)))"
| "rename_params a = (Map.empty, a)"

text \<open>
  The second loop runs over \<^verbatim>\<open>ast.walk(n)\<close> and writes into the nodes it visits. It
  changes no field that holds nodes, so the walk is that of the tree before the loop;
  every node is visited once; and an entry of \<^verbatim>\<open>name_map\<close> is never overwritten. So the
  identifier written into a \<^verbatim>\<open>Name\<close> node is the final \<^verbatim>\<open>name_map\<close>'s: the model first
  folds the loop's updates of \<^verbatim>\<open>name_map\<close> over the walk, then rewrites the tree.
\<close>

definition literal_name :: "string \<Rightarrow> bool" where
  "literal_name ident \<longleftrightarrow> ident = ''True'' \<or> ident = ''False'' \<or> ident = ''None''"

fun assign_name :: "name_map \<Rightarrow> name_map \<times> nat \<Rightarrow> ast \<Rightarrow> name_map \<times> nat" where
  "assign_name arg_map (name_map, counter) (Name p ident c) =
     (if literal_name ident then (name_map, counter)
      else if arg_map ident \<noteq> None then (name_map, counter)
      else if name_map ident = None then (name_map(ident \<mapsto> ''VAR'' @ str_nat counter), Suc counter)
      else (name_map, counter))"
| "assign_name arg_map st t = st"

definition assign_names :: "name_map \<Rightarrow> ast list \<Rightarrow> name_map" where
  "assign_names arg_map ts = fst (foldl (assign_name arg_map) (Map.empty, 0) ts)"

definition rename_ident :: "name_map \<Rightarrow> name_map \<Rightarrow> string \<Rightarrow> string" where
  "rename_ident arg_map name_map ident =
     (if literal_name ident then ident
      else case arg_map ident of
        Some ph \<Rightarrow> ph
      | None \<Rightarrow> (case name_map ident of Some ph \<Rightarrow> ph | None \<Rightarrow> ident))"

primrec rename_tree :: "name_map \<Rightarrow> name_map \<Rightarrow> ast \<Rightarrow> ast" where
  "rename_tree am nm (Name p x c) = Name p (rename_ident am nm x) c"
| "rename_tree am nm (Arg p x ann) =
     Arg p (case am x of Some ph \<Rightarrow> ph | None \<Rightarrow> x) (map_option (rename_tree am nm) ann)"
| "rename_tree am nm (Arguments po ar va ko kd kw de) =
     Arguments (map (rename_tree am nm) po) (map (rename_tree am nm) ar)
       (map_option (rename_tree am nm) va) (map (rename_tree am nm) ko)
       (map (map_option (rename_tree am nm)) kd) (map_option (rename_tree am nm) kw)
       (map (rename_tree am nm) de)"
| "rename_tree am nm (FunctionDef asy p fname ar body decs ret) =
     FunctionDef asy p fname (rename_tree am nm ar) (map (rename_tree am nm) body)
       (map (rename_tree am nm) decs) (map_option (rename_tree am nm) ret)"
| "rename_tree am nm (Other l p fss) = Other l p (map (map (rename_tree am nm)) fss)"

text \<open>
  \<open>normalized_tree\<close> is what \<^verbatim>\<open>normalized_function_body_dump\<close> does to the copy \<open>n\<close> of
  the node: the name \<^verbatim>\<open>FUNC\<close>, the two loops and the position stripping. Its result is
  the tree handed to \<^verbatim>\<open>ast.dump\<close>.
\<close>

fun normalized_tree :: "ast \<Rightarrow> ast option" where
  "normalized_tree (FunctionDef asy p fname ar body decs ret) =
     (let (arg_map, ar') = rename_params ar;
          n = FunctionDef asy p ''FUNC'' ar' body decs ret;
          name_map = assign_names arg_map (walk n)
      in Some (strip (rename_tree arg_map name_map n)))"
| "normalized_tree node = None"

text \<open>
  The notions in which the effect of the normalizer on names is stated. The names that a
  function definition declares in \<^verbatim>\<open>args.args\<close>, \<^verbatim>\<open>args.vararg\<close> and \<^verbatim>\<open>args.kwarg\<close>; the
  parser puts \<^verbatim>\<open>arg\<close> nodes there (\<open>wf_params\<close>). The placeholders that the first loop
  hands out for them.
\<close>

fun is_arg :: "ast \<Rightarrow> bool" where
  "is_arg (Arg p x ann) = True"
| "is_arg t = False"

fun arg_name :: "ast \<Rightarrow> string" where
  "arg_name (Arg p x ann) = x"
| "arg_name t = []"

fun args_names :: "ast \<Rightarrow> string list \<times> string option \<times> string option" where
  "args_names (Arguments po ar va ko kd kw de) =
     (map arg_name ar, map_option arg_name va, map_option arg_name kw)"
| "args_names t = ([], None, None)"

fun declared_params :: "ast \<Rightarrow> string list \<times> string option \<times> string option" where
  "declared_params (FunctionDef asy p f ar body decs ret) = args_names ar"
| "declared_params t = ([], None, None)"

definition wf_params :: "ast list \<Rightarrow> ast option \<Rightarrow> ast option \<Rightarrow> bool" where
  "wf_params ar va kw \<longleftrightarrow>
     list_all is_arg ar \<and> list_all is_arg (opt_list va) \<and> list_all is_arg (opt_list kw)"

definition param_names :: "ast list \<Rightarrow> ast option \<Rightarrow> ast option \<Rightarrow> string set" where
  "param_names ar va kw = arg_name ` (set ar \<union> set_option va \<union> set_option kw)"

definition placeholders :: "ast list \<Rightarrow> ast option \<Rightarrow> ast option \<Rightarrow> string set" where
  "placeholders ar va kw =
     (\<lambda>i. ''ARG'' @ str_nat i) ` {..<length ar} \<union>
     (case va of None \<Rightarrow> {} | Some a \<Rightarrow> {''VARARG''}) \<union>
     (case kw of None \<Rightarrow> {} | Some a \<Rightarrow> {''KWARG''})"

text \<open>
  The identifiers that get a \<^verbatim>\<open>VAR\<close> placeholder: those of the \<^verbatim>\<open>Name\<close> nodes of the walk
  that are neither \<^verbatim>\<open>True\<close>, \<^verbatim>\<open>False\<close>, \<^verbatim>\<open>None\<close> nor keys of \<^verbatim>\<open>arg_map\<close>, in the order
  of the walk (\<open>free_idents\<close>); each kept at its first occurrence (\<open>seen_order\<close>); the
  number of an identifier is its index in that list (\<open>pos_in\<close>).
\<close>

fun free_ident :: "name_map \<Rightarrow> ast \<Rightarrow> string list" where
  "free_ident arg_map (Name p ident c) =
     (if literal_name ident \<or> arg_map ident \<noteq> None then [] else [ident])"
| "free_ident arg_map t = []"

definition free_idents :: "name_map \<Rightarrow> ast list \<Rightarrow> string list" where
  "free_idents arg_map ts = concat (map (free_ident arg_map) ts)"

definition add_seen :: "string list \<Rightarrow> string \<Rightarrow> string list" where
  "add_seen seen x = (if x \<in> set seen then seen else seen @ [x])"

definition seen_order :: "string list \<Rightarrow> string list" where
  "seen_order xs = foldl add_seen [] xs"

definition pos_in :: "string list \<Rightarrow> string \<Rightarrow> nat" where
  "pos_in xs x = length (takeWhile (\<lambda>y. y \<noteq> x) xs)"

definition var_map :: "string list \<Rightarrow> name_map" where
  "var_map seen x = (if x \<in> set seen then Some (''VAR'' @ str_nat (pos_in seen x)) else None)"

text \<open>
  \<^verbatim>\<open>copy.deepcopy\<close> and \<^verbatim>\<open>ast.dump\<close> are parameters with an optional result: both recurse
  over the tree and raise \<^verbatim>\<open>RecursionError\<close> when it is nested too deep, which is the
  result \<open>None\<close>. \<^verbatim>\<open>normalized_function_body_dump\<close> returns \<^verbatim>\<open>None\<close> when the node is no
  function definition, when the copy fails and when the serialization fails.
\<close>

definition normalized_function_body_dump ::
  "(ast \<Rightarrow> ast option) \<Rightarrow> (ast \<Rightarrow> string option) \<Rightarrow> ast \<Rightarrow> string option" where
  "normalized_function_body_dump deepcopy dump node =
     (if \<not> is_function node then None
      else
        case deepcopy node of
          None \<Rightarrow> None
        | Some n \<Rightarrow> (case normalized_tree n of None \<Rightarrow> None | Some t \<Rightarrow> dump t))"

text \<open>
  \<^verbatim>\<open>collect_functions\<close>: a file whose reading or parsing raises any exception is skipped;
  a top-level function whose dump is \<^verbatim>\<open>None\<close> or empty is skipped; the record takes name
  and line number from the original node.
\<close>

definition collect_file ::
  "(ast \<Rightarrow> ast option) \<Rightarrow> (ast \<Rightarrow> string option) \<Rightarrow> string \<times> file_result \<Rightarrow> func list" where
  "collect_file deepcopy dump f =
     (case snd f of
        Parsed body \<Rightarrow>
          concat (map (\<lambda>node.
            case normalized_function_body_dump deepcopy dump node of
              None \<Rightarrow> []
            | Some nd \<Rightarrow>
                if nd = [] then []
                else [\<lparr>path = fst f, name = fn_name node, lineno = fn_lineno node,
                       normalized_dump = nd\<rparr>])
            (filter is_function body))
      | _ \<Rightarrow> [])"

definition collect_functions ::
  "(ast \<Rightarrow> ast option) \<Rightarrow> (ast \<Rightarrow> string option) \<Rightarrow> (string \<times> file_result) list \<Rightarrow> func list" where
  "collect_functions deepcopy dump fs = concat (map (collect_file deepcopy dump) fs)"

text \<open>
  \<^verbatim>\<open>main\<close> of the near-duplicate tool: root check, output directory, collection (the
  listing first), search, reports.
\<close>

definition near_main ::
  "(ast \<Rightarrow> ast option) \<Rightarrow> (ast \<Rightarrow> string option) \<Rightarrow> (string \<Rightarrow> string \<Rightarrow> real) \<Rightarrow> pyfloat \<Rightarrow>
     env \<Rightarrow> failure + pair list" where
  "near_main deepcopy dump ratio threshold e =
     (if \<not> root_exists e then Inl Root_not_found
      else if \<not> out_dir_ok e then Inl Uncaught_exception
      else if \<not> listing_ok e then Inl Uncaught_exception
      else
        let pairs = near_pairs ratio threshold (collect_functions deepcopy dump (files e))
        in if \<not> reports_ok e then Inl Report_failed else Inr pairs)"

section \<open>Exact-match index\<close>

text \<open>
  \<^verbatim>\<open>func_index\<close> maps a hash to the occurrences that carry it, in insertion order. A
  reported group is the dict \<^verbatim>\<open>{"function_hash": h, "occurrences": occurrences}\<close>.
  \<^verbatim>\<open>dupes\<close> takes the entries of \<^verbatim>\<open>func_index.items()\<close> with more than one occurrence
  and is then sorted by \<^verbatim>\<open>len(d["occurrences"])\<close> with \<^verbatim>\<open>reverse=True\<close>.
\<close>

record group =
  function_hash :: string
  occurrences :: "occurrence list"

type_synonym func_index = "(string \<times> occurrence list) list"

definition dupes_of :: "func_index \<Rightarrow> group list" where
  "dupes_of func_index =
     sort_key (\<lambda>d. - int (length (occurrences d)))
       (map (\<lambda>(h, occs). \<lparr>function_hash = h, occurrences = occs\<rparr>)
          (filter (\<lambda>(h, occs). 1 < length occs) func_index))"

text \<open>
  \<^verbatim>\<open>func_index[f["hash"]].append({"path": rel, "name": ..., "lineno": ...})\<close> for every
  extracted function, given here as a hash with its occurrence.
\<close>

definition build_index :: "(string \<times> occurrence) list \<Rightarrow> func_index" where
  "build_index recs = foldl (\<lambda>m r. dict_append (fst r) (snd r) m) [] recs"

section \<open>Exact-match tool\<close>

text \<open>
  \<^verbatim>\<open>normalized_ast_dump\<close> strips the positions of the node in place and returns
  \<^verbatim>\<open>ast.dump(node, include_attributes=False)\<close>. The serializer is the parameter of the
  near-duplicate tool, \<open>None\<close> when it raises; the SHA-256 of \<^verbatim>\<open>hash_text\<close> is a
  parameter as well.
\<close>

definition normalized_ast_dump :: "(ast \<Rightarrow> string option) \<Rightarrow> ast \<Rightarrow> string option" where
  "normalized_ast_dump dump node = dump (strip node)"

text \<open>
  \<^verbatim>\<open>extract_functions\<close> gives the dicts \<^verbatim>\<open>{"name", "lineno", "hash"}\<close> of the top-level
  functions of one file. It catches every exception of \<^verbatim>\<open>read_text\<close> but only
  \<^verbatim>\<open>SyntaxError\<close> of \<^verbatim>\<open>ast.parse\<close>, and nothing around \<^verbatim>\<open>normalized_ast_dump\<close>: a
  serialization that raises ends the call, whatever was extracted before. The name and
  the line number are read from the node after \<^verbatim>\<open>normalized_ast_dump\<close> has stripped it.
\<close>

definition extract_functions ::
  "(ast \<Rightarrow> string option) \<Rightarrow> (string \<Rightarrow> string) \<Rightarrow> file_result \<Rightarrow>
     failure + (string \<times> int option \<times> string) list" where
  "extract_functions dump hash_text res =
     (case res of
        Unreadable \<Rightarrow> Inr []
      | Syntax_error \<Rightarrow> Inr []
      | Parse_crash \<Rightarrow> Inl Uncaught_exception
      | Parsed body \<Rightarrow>
          (case those (map (\<lambda>node.
                  map_option (\<lambda>d. (fn_name (strip node), fn_lineno (strip node), hash_text d))
                    (normalized_ast_dump dump node))
                (filter is_function body)) of
             None \<Rightarrow> Inl Uncaught_exception
           | Some funcs \<Rightarrow> Inr funcs))"

text \<open>
  The loop of \<^verbatim>\<open>main\<close> over the sorted files, given with their relative paths:
  \<^verbatim>\<open>func_index[f["hash"]].append({"path": rel, "name": f["name"], "lineno": f.get("lineno")})\<close>.
\<close>

fun exact_scan ::
  "(ast \<Rightarrow> string option) \<Rightarrow> (string \<Rightarrow> string) \<Rightarrow> func_index \<Rightarrow> (string \<times> file_result) list \<Rightarrow>
     failure + func_index" where
  "exact_scan dump hash_text idx [] = Inr idx"
| "exact_scan dump hash_text idx ((rel, res) # rest) =
     (case extract_functions dump hash_text res of
        Inl e \<Rightarrow> Inl e
      | Inr fs \<Rightarrow>
          exact_scan dump hash_text
            (foldl (\<lambda>m (nm, ln, h). dict_append h \<lparr>path = rel, name = nm, lineno = ln\<rparr> m) idx fs)
            rest)"

definition exact_main ::
  "(ast \<Rightarrow> string option) \<Rightarrow> (string \<Rightarrow> string) \<Rightarrow> env \<Rightarrow> failure + group list" where
  "exact_main dump hash_text e =
     (if \<not> root_exists e then Inl Root_not_found
      else if \<not> out_dir_ok e then Inl Uncaught_exception
      else if \<not> listing_ok e then Inl Uncaught_exception
      else
        case exact_scan dump hash_text [] (files e) of
          Inl x \<Rightarrow> Inl x
        | Inr func_index \<Rightarrow>
            let dupes = dupes_of func_index
            in if \<not> reports_ok e then Inl Report_failed else Inr dupes)"

text \<open>
  For stating results: the top-level functions of the scanned files with their relative
  paths, the hash and occurrence that the scan files for one of them, and the records of
  all of them, which exist when every serialization returns.
\<close>

definition top_level_functions :: "(string \<times> file_result) list \<Rightarrow> (string \<times> ast) list" where
  "top_level_functions fs =
     concat (map (\<lambda>f. case snd f of
                          Parsed body \<Rightarrow> map (Pair (fst f)) (filter is_function body)
                        | _ \<Rightarrow> []) fs)"

definition exact_record ::
  "(ast \<Rightarrow> string option) \<Rightarrow> (string \<Rightarrow> string) \<Rightarrow> string \<times> ast \<Rightarrow> (string \<times> occurrence) option" where
  "exact_record dump hash_text f =
     map_option
       (\<lambda>d. (hash_text d,
             \<lparr>path = fst f, name = fn_name (strip (snd f)), lineno = fn_lineno (strip (snd f))\<rparr>))
       (normalized_ast_dump dump (snd f))"

definition exact_records ::
  "(ast \<Rightarrow> string option) \<Rightarrow> (string \<Rightarrow> string) \<Rightarrow> (string \<times> file_result) list \<Rightarrow>
     (string \<times> occurrence) list option" where
  "exact_records dump hash_text fs = those (map (exact_record dump hash_text) (top_level_functions fs))"

section \<open>Concrete inputs\<close>

text \<open>
  \<^verbatim>\<open>SequenceMatcher.ratio\<close> is \<open>2 * M / T\<close>, with \<open>M\<close> the number of matched
  elements and \<open>T\<close> the total length: 1 on equal strings, 0 on strings that share no
  character. \<open>unit_ratio\<close> has these two values and is used on such strings only.
\<close>

definition unit_ratio :: "string \<Rightarrow> string \<Rightarrow> real" where
  "unit_ratio s t = (if s = t then 1 else 0)"

definition mk_func :: "string \<Rightarrow> string \<Rightarrow> int \<Rightarrow> string \<Rightarrow> func" where
  "mk_func p n l d = \<lparr>path = p, name = n, lineno = Some l, normalized_dump = d\<rparr>"

definition ex_a :: func where
  "ex_a = mk_func ''a.py'' ''f'' 1 (replicate 100 CHR ''x'')"

definition ex_b :: func where
  "ex_b = mk_func ''b.py'' ''g'' 1 (replicate 100 CHR ''x'')"

definition ex_c :: func where
  "ex_c = mk_func ''c.py'' ''h'' 1 (replicate 130 CHR ''y'')"

definition ex_d :: func where
  "ex_d = mk_func ''d.py'' ''k'' 1 (replicate 220 CHR ''z'')"

definition ex_e :: func where
  "ex_e = mk_func ''e.py'' ''m'' 1 (replicate 230 CHR ''z'')"

definition ex_long :: func where
  "ex_long = mk_func ''l.py'' ''p'' 1 (replicate 1200 CHR ''x'')"

definition ex_longer :: func where
  "ex_longer = mk_func ''l.py'' ''q'' 40 (replicate 1560 CHR ''x'')"

text \<open>
  A serializer that prints classes, names and fields and leaves positions out, standing
  in for \<^verbatim>\<open>ast.dump(node, include_attributes=False)\<close> on concrete trees; and the library
  of a run in which no copy and no serialization raises.
\<close>

primrec show_ast :: "ast \<Rightarrow> string" where
  "show_ast (Name p x c) = ''Name('' @ x @ '','' @ c @ '')''"
| "show_ast (Arg p x ann) = ''arg('' @ x @ '','' @ concat (opt_list (map_option show_ast ann)) @ '')''"
| "show_ast (Arguments po ar va ko kd kw de) =
     ''arguments('' @ concat (map show_ast po) @ '';'' @ concat (map show_ast ar) @ '';'' @
       concat (opt_list (map_option show_ast va)) @ '';'' @ concat (map show_ast ko) @ '';'' @
       concat (map (\<lambda>d. concat (opt_list d) @ '','') (map (map_option show_ast) kd)) @ '';'' @
       concat (opt_list (map_option show_ast kw)) @ '';'' @ concat (map show_ast de) @ '')''"
| "show_ast (FunctionDef asy p nm ar body decs ret) =
     (if asy then ''AsyncFunctionDef('' else ''FunctionDef('') @ nm @ '','' @ show_ast ar @ '',['' @
       concat (map show_ast body) @ ''],['' @ concat (map show_ast decs) @ ''],'' @
       concat (opt_list (map_option show_ast ret)) @ '')''"
| "show_ast (Other l p fss) =
     l @ ''('' @ concat (map (\<lambda>fs. ''['' @ concat fs @ '']'') (map (map show_ast) fss)) @ '')''"

definition ex_dump :: "ast \<Rightarrow> string option" where
  "ex_dump t = Some (show_ast t)"

definition ex_deepcopy :: "ast \<Rightarrow> ast option" where
  "ex_deepcopy t = Some t"

definition pos :: "int \<Rightarrow> int \<Rightarrow> int \<Rightarrow> int \<Rightarrow> position" where
  "pos l c el ec = (Some l, Some c, Some el, Some ec)"

definition no_params :: ast where
  "no_params = Arguments [] [] None [] [] None []"

text \<open>\<^verbatim>\<open>def duplicate(): return 42\<close>, starting at line \<open>l\<close>.\<close>

definition ex_duplicate :: "int \<Rightarrow> ast" where
  "ex_duplicate l =
     FunctionDef False (pos l 0 (l + 1) 13) ''duplicate'' no_params
       [Other ''Return'' (Some (pos (l + 1) 4 (l + 1) 13))
          [[Other ''Constant(42)'' (Some (pos (l + 1) 11 (l + 1) 13)) []]]]
       [] None"

text \<open>
  Two files with the same function at different lines, a file with a syntax error and
  an unreadable file; and the group the exact-match tool reports for them.
\<close>

definition ex_env :: env where
  "ex_env = \<lparr>root_exists = True, out_dir_ok = True, listing_ok = True,
     files = [(''a.py'', Parsed [ex_duplicate 1]), (''b.py'', Parsed [ex_duplicate 3]),
              (''broken.py'', Syntax_error), (''locked.py'', Unreadable)],
     reports_ok = True\<rparr>"

definition ex_group :: group where
  "ex_group = \<lparr>function_hash = show_ast (strip (ex_duplicate 1)),
     occurrences = [\<lparr>path = ''a.py'', name = ''duplicate'', lineno = None\<rparr>,
                    \<lparr>path = ''b.py'', name = ''duplicate'', lineno = None\<rparr>]\<rparr>"

text \<open>An existing root with an output path that cannot be created.\<close>

definition ex_env_no_out :: env where
  "ex_env_no_out =
     \<lparr>root_exists = True, out_dir_ok = False, listing_ok = True, files = [], reports_ok = True\<rparr>"

text \<open>
  An existing root with an output directory that exists and is read-only: \<^verbatim>\<open>mkdir\<close>
  with \<^verbatim>\<open>exist_ok=True\<close> succeeds and \<^verbatim>\<open>json_out.write_text\<close> raises.
\<close>

definition ex_env_read_only :: env where
  "ex_env_read_only = ex_env\<lparr>reports_ok := False\<rparr>"

text \<open>An existing root with a directory under it whose entries cannot be examined.\<close>

definition ex_env_no_listing :: env where
  "ex_env_no_listing = ex_env\<lparr>listing_ok := False\<rparr>"

text \<open>An existing root with a file on which \<^verbatim>\<open>ast.parse\<close> raises \<^verbatim>\<open>RecursionError\<close>.\<close>

definition ex_env_crash :: env where
  "ex_env_crash = \<lparr>root_exists = True, out_dir_ok = True, listing_ok = True,
     files = [(''a.py'', Parsed [ex_duplicate 1]), (''deep.py'', Parse_crash)],
     reports_ok = True\<rparr>"

text \<open>\<^verbatim>\<open>def f(x, ARG0): return x\<close>\<close>

definition ex_collide :: ast where
  "ex_collide =
     FunctionDef False (pos 1 0 2 12) ''f''
       (Arguments [] [Arg (pos 1 6 1 7) ''x'' None, Arg (pos 1 9 1 13) ''ARG0'' None] None [] [] None [])
       [Other ''Return'' (Some (pos 2 4 2 12)) [[Name (pos 2 11 2 12) ''x'' ''Load'']]]
       [] None"

text \<open>\<^verbatim>\<open>def f(x): y = x + 1; return y\<close>, with the three names as parameters.\<close>

definition ex_renamed :: "int \<Rightarrow> string \<Rightarrow> string \<Rightarrow> string \<Rightarrow> ast" where
  "ex_renamed l f x y =
     FunctionDef False (pos l 0 (l + 2) 12) f
       (Arguments [] [Arg (pos l 7 l 8) x None] None [] [] None [])
       [Other ''Assign'' (Some (pos (l + 1) 4 (l + 1) 13))
          [[Name (pos (l + 1) 4 (l + 1) 5) y ''Store''],
           [Other ''BinOp'' (Some (pos (l + 1) 8 (l + 1) 13))
              [[Name (pos (l + 1) 8 (l + 1) 9) x ''Load''], [Other ''Add'' None []],
               [Other ''Constant(1)'' (Some (pos (l + 1) 12 (l + 1) 13)) []]]]],
        Other ''Return'' (Some (pos (l + 2) 4 (l + 2) 12))
          [[Name (pos (l + 2) 11 (l + 2) 12) y ''Load'']]]
       [] None"

text \<open>\<^verbatim>\<open>def f(p, /): return p\<close>, with the parameter's name as parameter.\<close>

definition ex_posonly :: "string \<Rightarrow> ast" where
  "ex_posonly p =
     FunctionDef False (pos 1 0 2 12) ''f''
       (Arguments [Arg (pos 1 6 1 7) p None] [] None [] [] None [])
       [Other ''Return'' (Some (pos 2 4 2 12)) [[Name (pos 2 11 2 12) p ''Load'']]]
       [] None"

section \<open>Basic facts about the search\<close>

lemma set_index_pairs_subset:
  "(x, y) \<in> set (index_pairs xs) \<Longrightarrow> x \<in> set xs \<and> y \<in> set xs"
  by (induction xs) auto

lemma emit_member:
  "p \<in> set (emit e) \<longleftrightarrow> (\<exists>r. snd (snd e) = Kept r \<and> p = \<lparr>p_a = fst e, p_b = fst (snd e), p_ratio = r\<rparr>)"
  by (cases e rule: emit.cases) auto

lemma found_pairs_member:
  "p \<in> set (found_pairs ratio threshold funcs) \<longleftrightarrow>
     (p_a p, p_b p, Kept (p_ratio p)) \<in> set (search_trace ratio threshold funcs)"
  by (cases p) (force simp: found_pairs_def emit_member)

lemma near_pairs_set:
  "set (near_pairs ratio threshold funcs) = set (found_pairs ratio threshold funcs)"
  by (simp add: near_pairs_def)

lemma search_trace_decision:
  "(x, y, d) \<in> set (search_trace ratio threshold funcs) \<Longrightarrow> d = compare_pair ratio threshold x y"
  by (auto simp: search_trace_def window_trace_def Let_def)

lemma keys_dict_append:
  "map fst (dict_append k v m) = (if k \<in> set (map fst m) then map fst m else map fst m @ [k])"
  by (induction m) (auto split: if_splits)

lemma keys_dict_append_set: "fst ` set (dict_append k v m) = insert k (fst ` set m)"
  using arg_cong [where f = set, OF keys_dict_append [of k v m]] by auto

lemma dict_get_Nil: "dict_get [] k = []"
  by (simp add: dict_get_def)

lemma map_of_dict_append:
  "map_of (dict_append k v m) = (map_of m)(k \<mapsto> dict_get m k @ [v])"
  by (induction m) (auto simp: dict_get_def fun_eq_iff)

lemma dict_get_append:
  "dict_get (dict_append k v m) k' = (if k' = k then dict_get m k @ [v] else dict_get m k')"
  by (simp add: dict_get_def map_of_dict_append)

lemma dict_get_foldl:
  "dict_get (foldl (\<lambda>m x. dict_append (kf x) (vf x) m) m xs) k =
     dict_get m k @ map vf (filter (\<lambda>x. kf x = k) xs)"
  by (induction xs arbitrary: m) (auto simp: dict_get_append)

lemma keys_foldl:
  "set (map fst (foldl (\<lambda>m x. dict_append (kf x) (vf x) m) m xs)) =
     set (map fst m) \<union> kf ` set xs"
  by (induction xs arbitrary: m) (auto simp: keys_dict_append_set)

lemma distinct_keys_foldl:
  "distinct (map fst m) \<Longrightarrow>
   distinct (map fst (foldl (\<lambda>m x. dict_append (kf x) (vf x) m) m xs))"
  by (induction xs arbitrary: m) (auto simp: keys_dict_append)

lemma dict_get_build:
  "dict_get (build_buckets funcs) k = filter (\<lambda>f. bucket_key (normalized_dump f) = k) funcs"
  unfolding build_buckets_def
  using dict_get_foldl [of "\<lambda>f. bucket_key (normalized_dump f)" "\<lambda>f. f" "[]" funcs k]
  by (simp add: dict_get_Nil)

lemma bucket_keys_build:
  "set (bucket_keys (build_buckets funcs)) = (\<lambda>f. bucket_key (normalized_dump f)) ` set funcs"
  using keys_foldl [of "\<lambda>f. bucket_key (normalized_dump f)" "\<lambda>f. f" "[]" funcs]
  by (simp add: bucket_keys_def build_buckets_def)

lemma distinct_bucket_keys_build: "distinct (bucket_keys (build_buckets funcs))"
  using distinct_keys_foldl [of "[]" "\<lambda>f. bucket_key (normalized_dump f)" "\<lambda>f. f" funcs]
  by (simp add: bucket_keys_def build_buckets_def)

lemma candidates_build:
  "candidates (build_buckets funcs) k =
     filter (\<lambda>f. bucket_key (normalized_dump f) = k) funcs @
     filter (\<lambda>f. bucket_key (normalized_dump f) = k - 1) funcs @
     filter (\<lambda>f. bucket_key (normalized_dump f) = k + 1) funcs"
  by (simp add: candidates_def dict_get_build)

lemma candidates_member:
  "x \<in> set (candidates (build_buckets funcs) k) \<longleftrightarrow>
     x \<in> set funcs \<and> \<bar>bucket_key (normalized_dump x) - k\<bar> \<le> 1"
  by (auto simp: candidates_build)

lemma search_trace_member:
  "(x, y, d) \<in> set (search_trace ratio threshold funcs) \<longleftrightarrow>
     (\<exists>k \<in> (\<lambda>f. bucket_key (normalized_dump f)) ` set funcs.
        (x, y) \<in> set (index_pairs (candidates (build_buckets funcs) k))) \<and>
     d = compare_pair ratio threshold x y"
  by (auto simp: search_trace_def window_trace_def Let_def bucket_keys_build)

lemma set_index_pairs_append:
  "set (index_pairs (xs @ ys)) =
     set (index_pairs xs) \<union> set xs \<times> set ys \<union> set (index_pairs ys)"
  by (induction xs) auto

lemma trace_bucket_distance:
  assumes "(x, y, d) \<in> set (search_trace ratio threshold funcs)"
  shows "\<bar>bucket_key (normalized_dump x) - bucket_key (normalized_dump y)\<bar> \<le> 2"
proof -
  from assms obtain k where
    k: "(x, y) \<in> set (index_pairs (candidates (build_buckets funcs) k))"
    by (auto simp: search_trace_member)
  then have "x \<in> set (candidates (build_buckets funcs) k)"
    and "y \<in> set (candidates (build_buckets funcs) k)"
    by (auto dest: set_index_pairs_subset)
  then have "\<bar>bucket_key (normalized_dump x) - k\<bar> \<le> 1"
    and "\<bar>bucket_key (normalized_dump y) - k\<bar> \<le> 1"
    by (simp_all add: candidates_member)
  then show ?thesis by arith
qed

lemma compare_pair_Kept:
  "compare_pair ratio threshold x y = Kept r \<longleftrightarrow>
     \<not> same_occurrence x y \<and>
     \<not> length_skip (length (normalized_dump x)) (length (normalized_dump y)) \<and>
     r = ratio (normalized_dump x) (normalized_dump y) \<and> float_ge r threshold"
  by (auto simp: compare_pair_def same_occurrence_def Let_def)

lemma compare_pair_Below:
  "compare_pair ratio threshold x y = Below r \<longleftrightarrow>
     \<not> same_occurrence x y \<and>
     \<not> length_skip (length (normalized_dump x)) (length (normalized_dump y)) \<and>
     r = ratio (normalized_dump x) (normalized_dump y) \<and> \<not> float_ge r threshold"
  by (auto simp: compare_pair_def same_occurrence_def Let_def)

lemma compare_pair_Skip_same:
  "compare_pair ratio threshold x y = Skip_same \<longleftrightarrow> same_occurrence x y"
  by (auto simp: compare_pair_def same_occurrence_def Let_def)

lemma compare_pair_Skip_length:
  "compare_pair ratio threshold x y = Skip_length \<longleftrightarrow>
     \<not> same_occurrence x y \<and>
     length_skip (length (normalized_dump x)) (length (normalized_dump y))"
  by (auto simp: compare_pair_def same_occurrence_def Let_def)

lemma near_pairs_member:
  "p \<in> set (near_pairs ratio threshold funcs) \<longleftrightarrow>
     (p_a p, p_b p, Kept (p_ratio p)) \<in> set (search_trace ratio threshold funcs)"
  by (simp add: near_pairs_set found_pairs_member)

section \<open>The double product of the length pre-filter\<close>

lemma bitlen_le_iff: "bitlen n \<le> k \<longleftrightarrow> n < 2 ^ k"
proof (induction n arbitrary: k rule: bitlen.induct)
  case (1 n)
  show ?case
  proof (cases "n = 0")
    case True
    then show ?thesis by (subst bitlen.simps) simp
  next
    case False
    show ?thesis
    proof (cases k)
      case 0
      with False show ?thesis by (subst bitlen.simps) simp
    next
      case (Suc k')
      have "bitlen n \<le> Suc k' \<longleftrightarrow> bitlen (n div 2) \<le> k'"
        using False by (subst bitlen.simps) simp
      also have "\<dots> \<longleftrightarrow> n div 2 < 2 ^ k'"
        using "1.IH" [OF False] by simp
      also have "\<dots> \<longleftrightarrow> n < 2 ^ Suc k'"
        by (simp add: div_less_iff_less_mult mult.commute) 
      finally show ?thesis using Suc by simp
    qed
  qed
qed

lemma bitlen_eqI: "2 ^ k \<le> n \<Longrightarrow> n < 2 ^ Suc k \<Longrightarrow> bitlen n = Suc k"
proof -
  assume a: "2 ^ k \<le> n" and b: "n < 2 ^ Suc k"
  from b have "bitlen n \<le> Suc k" by (simp only: bitlen_le_iff)
  moreover from a have "\<not> bitlen n \<le> k" by (simp only: bitlen_le_iff not_less)
  ultimately show ?thesis by simp
qed

lemma round53_exact: "n < 2 ^ 53 \<Longrightarrow> round53 n = n"
  using bitlen_le_iff [of n 53] by (simp add: round53_def)

lemma round53_upper: "round53 n \<le> n + 2 ^ (bitlen n - 53)"
proof (cases "bitlen n \<le> 53")
  case True
  then show ?thesis by (simp add: round53_def)
next
  case False
  define s where "s = bitlen n - 53"
  have "n div 2 ^ s * 2 ^ s \<le> n" by simp
  then have "(n div 2 ^ s + 1) * 2 ^ s \<le> n + 2 ^ s"
    by (simp add: algebra_simps)
  moreover have "n div 2 ^ s * 2 ^ s \<le> n + 2 ^ s" by (simp add: trans_le_add1)
  ultimately show ?thesis
    using False unfolding round53_def Let_def s_def [symmetric] by auto
qed

lemma round53_product_below:
  assumes m: "m < 2 ^ 49" and d: "7 * m < 20 * d"
  shows "round53 (round53 m * 6305039478318694) < d * 2 ^ 54"
proof -
  let ?n = "m * 6305039478318694"
  have "m < 2 ^ 53" using m by simp
  then have rm: "round53 m = m" by (rule round53_exact)
  have "?n < 2 ^ 102" using m by simp
  then have "bitlen ?n \<le> 102" by (simp only: bitlen_le_iff)
  then have "bitlen ?n - 53 \<le> 49" by simp
  then have "(2::nat) ^ (bitlen ?n - 53) \<le> 2 ^ 49"
    by (rule power_increasing) simp
  with round53_upper [of ?n] have "round53 ?n \<le> ?n + 2 ^ 49" by linarith
  moreover have "?n + 2 ^ 49 < d * 2 ^ 54" using d by simp
  ultimately show ?thesis using rm by simp
qed

lemma float_mul_035_below:
  assumes "m < 2 ^ 49" and "0.35 * real m < real d"
  shows "float_mul_035 m < real d"
proof -
  from assms(2) have "7 * real m < 20 * real d" by simp
  then have "real (7 * m) < real (20 * d)" by simp
  then have "7 * m < 20 * d" by (simp only: of_nat_less_iff)
  from round53_product_below [OF assms(1) this]
  have "real (round53 (round53 m * 6305039478318694)) < real (d * 2 ^ 54)"
    by (simp only: of_nat_less_iff)
  then show ?thesis by (simp add: float_mul_035_def field_simps)
qed

lemma length_skip_exact_bound:
  assumes "la < 2 ^ 49" and "lb < 2 ^ 49"
    and "max 120 (0.35 * real (min la lb)) < real_of_int \<bar>int la - int lb\<bar>"
  shows "length_skip la lb"
proof -
  define d where "d = nat \<bar>int la - int lb\<bar>"
  have d: "real_of_int \<bar>int la - int lb\<bar> = real d"
    unfolding d_def by (metis abs_ge_zero of_int_of_nat_eq of_nat_nat)
  have "min la lb < 2 ^ 49" using assms(1) by simp
  moreover have "0.35 * real (min la lb) < real d" using assms(3) unfolding d by simp
  ultimately have "float_mul_035 (min la lb) < real d" by (rule float_mul_035_below)
  moreover have "120 < real d" using assms(3) unfolding d by simp
  ultimately have "max 120 (float_mul_035 (min la lb)) < real d" by simp
  then show ?thesis unfolding length_skip_def length_bound_def d .
qed

lemma length_skip_within_120:
  assumes "\<bar>int la - int lb\<bar> \<le> 120"
  shows "\<not> length_skip la lb"
proof -
  from assms have "real_of_int \<bar>int la - int lb\<bar> \<le> real_of_int 120"
    by (simp only: of_int_le_iff)
  then have "real_of_int \<bar>int la - int lb\<bar> \<le> max 120 (float_mul_035 (min la lb))"
    by linarith
  then show ?thesis unfolding length_skip_def length_bound_def by linarith
qed

section \<open>Evaluation on concrete inputs\<close>

lemma ex_keys [simp]:
  "bucket_key (normalized_dump ex_a) = 0" "bucket_key (normalized_dump ex_b) = 0"
  "bucket_key (normalized_dump ex_c) = 1" "bucket_key (normalized_dump ex_d) = 1"
  "bucket_key (normalized_dump ex_e) = 1"
  "bucket_key (normalized_dump ex_long) = 10" "bucket_key (normalized_dump ex_longer) = 13"
  by (simp_all add: bucket_key_def ex_a_def ex_b_def ex_c_def ex_d_def ex_e_def ex_long_def ex_longer_def mk_func_def)

lemma ex_abc_buckets: "build_buckets [ex_a, ex_b, ex_c] = [(0, [ex_a, ex_b]), (1, [ex_c])]"
  by (simp add: build_buckets_def)

lemma ex_abc_compare:
  assumes "0 < t" "t \<le> 1"
  shows "compare_pair unit_ratio (Finite t) ex_a ex_b = Kept 1"
    "compare_pair unit_ratio (Finite t) ex_a ex_c = Below 0"
    "compare_pair unit_ratio (Finite t) ex_b ex_c = Below 0"
    "compare_pair unit_ratio (Finite t) ex_c ex_a = Below 0"
    "compare_pair unit_ratio (Finite t) ex_c ex_b = Below 0"
  using assms
  by (simp_all add: compare_pair_def Let_def length_skip_within_120 unit_ratio_def
      ex_a_def ex_b_def ex_c_def mk_func_def)

lemma ex_abc_trace:
  assumes "0 < t" "t \<le> 1"
  shows "search_trace unit_ratio (Finite t) [ex_a, ex_b, ex_c] =
    [(ex_a, ex_b, Kept 1), (ex_a, ex_c, Below 0), (ex_b, ex_c, Below 0),
     (ex_c, ex_a, Below 0), (ex_c, ex_b, Below 0), (ex_a, ex_b, Kept 1)]"
  by (simp add: search_trace_def ex_abc_buckets bucket_keys_def candidates_def dict_get_def
      window_trace_def ex_abc_compare [OF assms])

lemma ex_abc_pairs:
  assumes "0 < t" "t \<le> 1"
  shows "near_pairs unit_ratio (Finite t) [ex_a, ex_b, ex_c] =
    [\<lparr>p_a = ex_a, p_b = ex_b, p_ratio = 1\<rparr>, \<lparr>p_a = ex_a, p_b = ex_b, p_ratio = 1\<rparr>]"
  by (simp add: near_pairs_def found_pairs_def ex_abc_trace [OF assms])

lemma report_pairs_subset:
  "set (report_pairs ratio threshold funcs) \<subseteq> set (near_pairs ratio threshold funcs)"
  by (simp add: report_pairs_def set_take_subset)

lemma bucket_key_length_shift:
  "length t = length s + 120 \<Longrightarrow> bucket_key t = bucket_key s + 1"
  by (simp add: bucket_key_def)

lemma index_pairs_across:
  "x \<in> set xs \<Longrightarrow> y \<in> set ys \<Longrightarrow> (x, y) \<in> set (index_pairs (xs @ zs @ ys))"
  by (simp add: set_index_pairs_append)

lemma adjacent_pair_in_trace:
  assumes "x \<in> set funcs" and "y \<in> set funcs"
    and "bucket_key (normalized_dump y) = bucket_key (normalized_dump x) + 1"
  shows "(x, y, compare_pair ratio threshold x y) \<in> set (search_trace ratio threshold funcs)"
proof -
  let ?k = "bucket_key (normalized_dump x)"
  have "(x, y) \<in> set (index_pairs (candidates (build_buckets funcs) ?k))"
    unfolding candidates_build using assms by (intro index_pairs_across) simp_all
  then show ?thesis
    using assms(1) by (auto simp: search_trace_member)
qed

lemma compare_pair_computed:
  assumes "\<not> same_occurrence x y"
    and "\<not> length_skip (length (normalized_dump x)) (length (normalized_dump y))"
  shows "compare_pair ratio threshold x y = Kept (ratio (normalized_dump x) (normalized_dump y)) \<or>
         compare_pair ratio threshold x y = Below (ratio (normalized_dump x) (normalized_dump y))"
  using assms by (simp add: compare_pair_def same_occurrence_def Let_def)

text \<open>
  Claim C8. Two records of the function collection whose normalized dumps differ in length
  by exactly 120 characters, and which are not the same occurrence, fall into adjacent
  buckets; the window of the shorter one's bucket holds both, the longer one after the
  shorter, so the inner loop reaches the pair, the length pre-filter lets it through
  (\<open>120\<close> is not greater than \<open>max 120 _\<close>) and the ratio is computed: the decision is
  \<open>Kept\<close> or \<open>Below\<close> with the ratio of the two dumps.
\<close>

theorem bucket_width_apart_compared:
  assumes "x \<in> set funcs" and "y \<in> set funcs"
    and "length (normalized_dump y) = length (normalized_dump x) + 120"
    and "path x \<noteq> path y \<or> lineno x \<noteq> lineno y"
  shows "bucket_key (normalized_dump y) = bucket_key (normalized_dump x) + 1 \<and>
    (\<exists>d. (x, y, d) \<in> set (search_trace ratio threshold funcs) \<and>
         (d = Kept (ratio (normalized_dump x) (normalized_dump y)) \<or>
          d = Below (ratio (normalized_dump x) (normalized_dump y))))"
proof -
  have k: "bucket_key (normalized_dump y) = bucket_key (normalized_dump x) + 1"
    using assms(3) by (rule bucket_key_length_shift)
  have "\<bar>int (length (normalized_dump x)) - int (length (normalized_dump y))\<bar> \<le> 120"
    using assms(3) by simp
  then have "\<not> length_skip (length (normalized_dump x)) (length (normalized_dump y))"
    by (rule length_skip_within_120)
  moreover have "\<not> same_occurrence x y"
    using assms(4) by (simp add: same_occurrence_def)
  ultimately have
    "compare_pair ratio threshold x y = Kept (ratio (normalized_dump x) (normalized_dump y)) \<or>
     compare_pair ratio threshold x y = Below (ratio (normalized_dump x) (normalized_dump y))"
    by (intro compare_pair_computed)
  with adjacent_pair_in_trace [OF assms(1,2) k, of ratio threshold] k show ?thesis
    by blast
qed

theorem bucket_width_apart_compared_witness:
  "ex_a \<in> set [ex_a, ex_d] \<and> ex_d \<in> set [ex_a, ex_d] \<and>
   length (normalized_dump ex_d) = length (normalized_dump ex_a) + 120 \<and>
   path ex_a \<noteq> path ex_d \<and>
   bucket_key (normalized_dump ex_d) = bucket_key (normalized_dump ex_a) + 1 \<and>
   (\<exists>d. (ex_a, ex_d, d) \<in> set (search_trace unit_ratio (Finite (3/4)) [ex_a, ex_d]) \<and>
        (d = Kept (unit_ratio (normalized_dump ex_a) (normalized_dump ex_d)) \<or>
         d = Below (unit_ratio (normalized_dump ex_a) (normalized_dump ex_d))))"
proof -
  have h1: "ex_a \<in> set [ex_a, ex_d]" and h2: "ex_d \<in> set [ex_a, ex_d]" by simp_all
  have h3: "length (normalized_dump ex_d) = length (normalized_dump ex_a) + 120"
    by (simp add: ex_a_def ex_d_def mk_func_def)
  have p: "path ex_a \<noteq> path ex_d"
    by (simp add: ex_a_def ex_d_def mk_func_def)
  then have h4: "path ex_a \<noteq> path ex_d \<or> lineno ex_a \<noteq> lineno ex_d" by simp
  show ?thesis
    using h1 h2 h3 p bucket_width_apart_compared [OF h1 h2 h3 h4, of unit_ratio "Finite (3/4)"]
    by blast
qed

lemma far_pair_not_in_trace:
  assumes "3 \<le> \<bar>bucket_key (normalized_dump x) - bucket_key (normalized_dump y)\<bar>"
  shows "(x, y, d) \<notin> set (search_trace ratio threshold funcs)"
  using assms trace_bucket_distance [of x y d ratio threshold funcs] by auto

text \<open>
  Claim C7. Every pair in \<^verbatim>\<open>pairs\<close> has two members that differ in path or in line
  number, and the loop body \<^verbatim>\<open>continue\<close>s on a candidate pair with equal path and equal
  \<^verbatim>\<open>lineno\<close>. The lists written to the reports are prefixes of \<^verbatim>\<open>pairs\<close>
  (\<open>report_pairs_subset\<close>).
\<close>

theorem no_self_pairing:
  "(p \<in> set (near_pairs ratio threshold funcs) \<longrightarrow>
      path (p_a p) \<noteq> path (p_b p) \<or> lineno (p_a p) \<noteq> lineno (p_b p)) \<and>
   (path x = path y \<and> lineno x = lineno y \<longrightarrow> compare_pair ratio threshold x y = Skip_same)"
proof -
  have "path (p_a p) \<noteq> path (p_b p) \<or> lineno (p_a p) \<noteq> lineno (p_b p)"
    if "p \<in> set (near_pairs ratio threshold funcs)"
  proof -
    from that have "compare_pair ratio threshold (p_a p) (p_b p) = Kept (p_ratio p)"
      by (auto simp: near_pairs_member dest: search_trace_decision)
    then show ?thesis by (simp add: compare_pair_Kept same_occurrence_def)
  qed
  then show ?thesis by (auto simp: compare_pair_Skip_same same_occurrence_def)
qed

theorem no_self_pairing_witness:
  "\<lparr>p_a = ex_a, p_b = ex_b, p_ratio = 1\<rparr>
     \<in> set (near_pairs unit_ratio (Finite (3/4)) [ex_a, ex_b, ex_c]) \<and>
   path ex_a \<noteq> path ex_b \<and> lineno ex_a = lineno ex_b \<and>
   compare_pair unit_ratio (Finite (3/4)) ex_a ex_a = Skip_same"
proof -
  have h: "\<lparr>p_a = ex_a, p_b = ex_b, p_ratio = 1\<rparr>
       \<in> set (near_pairs unit_ratio (Finite (3/4)) [ex_a, ex_b, ex_c])"
    by (simp add: ex_abc_pairs)
  have "lineno ex_a = lineno ex_b" by (simp add: ex_a_def ex_b_def mk_func_def)
  with h no_self_pairing [of "\<lparr>p_a = ex_a, p_b = ex_b, p_ratio = 1\<rparr>" unit_ratio "Finite (3/4)"
      "[ex_a, ex_b, ex_c]" ex_a ex_a]
  show ?thesis by simp
qed

lemma bitlen_1200: "bitlen (1200 * 6305039478318694) = 63"
  by (rule bitlen_eqI [of 62, simplified]) simp_all

lemma float_mul_035_1200: "float_mul_035 1200 = 420"
proof -
  have "round53 1200 = 1200" by (rule round53_exact) simp
  moreover have "round53 (1200 * 6305039478318694) = 420 * 2 ^ 54"
    using bitlen_1200 by (simp add: round53_def Let_def)
  ultimately show ?thesis by (simp add: float_mul_035_def)
qed

lemma no_length_skip_1200_1560: "\<not> length_skip 1200 1560"
  by (simp add: length_skip_def length_bound_def float_mul_035_1200)

text \<open>
  Claim C10. Two records whose bucket keys \<open>len(normalized_dump) // 120\<close> differ by 3 or
  more never meet in the inner loop, in either order, and are never emitted as a pair,
  for every ratio function and every threshold. The instance below has lengths 1200 and
  1560, which the length pre-filter alone would let through (\<open>360 \<le> max 120 420\<close>).
\<close>

theorem far_buckets_never_compared:
  assumes "3 \<le> \<bar>bucket_key (normalized_dump x) - bucket_key (normalized_dump y)\<bar>"
  shows "(\<forall>d. (x, y, d) \<notin> set (search_trace ratio threshold funcs)) \<and>
         (\<forall>p \<in> set (near_pairs ratio threshold funcs). \<not> (p_a p = x \<and> p_b p = y))"
  using assms by (auto simp: near_pairs_member far_pair_not_in_trace)

theorem far_buckets_never_compared_witness:
  "3 \<le> \<bar>bucket_key (normalized_dump ex_long) - bucket_key (normalized_dump ex_longer)\<bar> \<and>
   \<not> length_skip (length (normalized_dump ex_long)) (length (normalized_dump ex_longer)) \<and>
   lineno ex_long \<noteq> lineno ex_longer \<and>
   (\<forall>d. (ex_long, ex_longer, d) \<notin> set (search_trace (\<lambda>s t. 1) NegInf [ex_long, ex_longer])) \<and>
   near_pairs (\<lambda>s t. 1) NegInf [ex_long, ex_longer] = []"
proof -
  have h: "3 \<le> \<bar>bucket_key (normalized_dump ex_long) - bucket_key (normalized_dump ex_longer)\<bar>"
    by simp
  have "\<not> length_skip (length (normalized_dump ex_long)) (length (normalized_dump ex_longer))"
    by (simp add: ex_long_def ex_longer_def mk_func_def no_length_skip_1200_1560)
  moreover have "lineno ex_long \<noteq> lineno ex_longer"
    by (simp add: ex_long_def ex_longer_def mk_func_def)
  moreover have "near_pairs (\<lambda>s t. 1) NegInf [ex_long, ex_longer] = []"
    by (simp add: near_pairs_def found_pairs_def search_trace_def build_buckets_def
        bucket_keys_def candidates_def dict_get_def window_trace_def)
  ultimately show ?thesis
    using h far_buckets_never_compared [OF h, of "\<lambda>s t. 1" NegInf "[ex_long, ex_longer]"]
    by blast
qed

text \<open>
  Claim C6. When the absolute difference of the two dump lengths exceeds
  \<open>max(120, 0.35 * min(la, lb))\<close>, taken in exact arithmetic, the loop body leaves before
  the ratio is computed and the pair is not reported; so the ratio is computed only for
  pairs within the bound. The code multiplies in double precision: the product is at most
  the exact one plus one rounding step, which stays below the next integer for lengths
  under \<open>2^49\<close> (far above what a Python string can hold). The converse does not hold at
  every length: \<open>length_skip_360_486\<close> shows a pair within the exact bound that the
  rounded product skips.
\<close>

theorem length_prefilter:
  assumes "length (normalized_dump x) < 2 ^ 49" and "length (normalized_dump y) < 2 ^ 49"
    and "max 120 (0.35 * real (min (length (normalized_dump x)) (length (normalized_dump y))))
           < real_of_int \<bar>int (length (normalized_dump x)) - int (length (normalized_dump y))\<bar>"
  shows "(\<forall>r. compare_pair ratio threshold x y \<noteq> Kept r \<and>
              compare_pair ratio threshold x y \<noteq> Below r) \<and>
         (\<forall>p \<in> set (near_pairs ratio threshold funcs). \<not> (p_a p = x \<and> p_b p = y))"
proof -
  have skip: "length_skip (length (normalized_dump x)) (length (normalized_dump y))"
    using assms by (rule length_skip_exact_bound)
  then have c: "\<forall>r. compare_pair ratio threshold x y \<noteq> Kept r \<and>
                   compare_pair ratio threshold x y \<noteq> Below r"
    by (simp add: compare_pair_Kept compare_pair_Below)
  have "\<not> (p_a p = x \<and> p_b p = y)" if "p \<in> set (near_pairs ratio threshold funcs)" for p
  proof
    assume "p_a p = x \<and> p_b p = y"
    with that have "compare_pair ratio threshold x y = Kept (p_ratio p)"
      by (auto simp: near_pairs_member dest: search_trace_decision)
    with c show False by simp
  qed
  with c show ?thesis by blast
qed

theorem length_prefilter_witness:
  "length (normalized_dump ex_a) < 2 ^ 49 \<and> length (normalized_dump ex_e) < 2 ^ 49 \<and>
   max 120 (0.35 * real (min (length (normalized_dump ex_a)) (length (normalized_dump ex_e))))
      < real_of_int \<bar>int (length (normalized_dump ex_a)) - int (length (normalized_dump ex_e))\<bar> \<and>
   (ex_a, ex_e, Skip_length) \<in> set (search_trace unit_ratio (Finite (3/4)) [ex_a, ex_e]) \<and>
   (\<forall>r. compare_pair unit_ratio (Finite (3/4)) ex_a ex_e \<noteq> Kept r \<and>
        compare_pair unit_ratio (Finite (3/4)) ex_a ex_e \<noteq> Below r) \<and>
   near_pairs unit_ratio (Finite (3/4)) [ex_a, ex_e] = []"
proof -
  have h1: "length (normalized_dump ex_a) < 2 ^ 49" and h2: "length (normalized_dump ex_e) < 2 ^ 49"
    by (simp_all add: ex_a_def ex_e_def mk_func_def)
  have h3: "max 120 (0.35 * real (min (length (normalized_dump ex_a)) (length (normalized_dump ex_e))))
      < real_of_int \<bar>int (length (normalized_dump ex_a)) - int (length (normalized_dump ex_e))\<bar>"
    by (simp add: ex_a_def ex_e_def mk_func_def)
  note t = length_prefilter [OF h1 h2 h3, of unit_ratio "Finite (3/4)" "[ex_a, ex_e]"]
  have "path ex_a \<noteq> path ex_e" by (simp add: ex_a_def ex_e_def mk_func_def)
  with t have "compare_pair unit_ratio (Finite (3/4)) ex_a ex_e = Skip_length"
    by (cases "compare_pair unit_ratio (Finite (3/4)) ex_a ex_e")
       (simp_all add: compare_pair_Skip_same same_occurrence_def)
  moreover have "(ex_a, ex_e, compare_pair unit_ratio (Finite (3/4)) ex_a ex_e)
      \<in> set (search_trace unit_ratio (Finite (3/4)) [ex_a, ex_e])"
    by (rule adjacent_pair_in_trace) simp_all
  moreover have "near_pairs unit_ratio (Finite (3/4)) [ex_a, ex_e] = []"
  proof -
    have "length_skip 100 230" and "length_skip 230 100"
      by (rule length_skip_exact_bound; simp)+
    then have "compare_pair unit_ratio (Finite (3/4)) ex_a ex_e = Skip_length"
      and "compare_pair unit_ratio (Finite (3/4)) ex_e ex_a = Skip_length"
      by (simp_all add: compare_pair_def ex_a_def ex_e_def mk_func_def)
    then show ?thesis
      by (simp add: near_pairs_def found_pairs_def search_trace_def build_buckets_def
          bucket_keys_def candidates_def dict_get_def window_trace_def)
  qed
  ultimately show ?thesis using h1 h2 h3 t by simp
qed

lemma bitlen_360: "bitlen (360 * 6305039478318694) = 61"
  by (rule bitlen_eqI [of 60, simplified]) simp_all

lemma float_mul_035_360: "float_mul_035 360 = 126 - 1 / 2 ^ 46"
proof -
  have "round53 360 = 360" by (rule round53_exact) simp
  moreover have "round53 (360 * 6305039478318694) = 2269814212194729728"
    using bitlen_360 by (simp add: round53_def Let_def)
  ultimately show ?thesis by (simp add: float_mul_035_def)
qed

lemma length_skip_360_486:
  "length_skip 360 486 \<and> \<not> max 120 (0.35 * real (min 360 486)) < real_of_int \<bar>int 360 - int 486\<bar>"
  by (simp add: length_skip_def length_bound_def float_mul_035_360)

text \<open>
  Claim C5. For a candidate pair that reaches the ratio computation (neither
  \<^verbatim>\<open>continue\<close> was taken), the pair with its ratio is in \<^verbatim>\<open>pairs\<close> exactly when
  Python's \<^verbatim>\<open>r >= threshold\<close> holds; for a finite threshold \<open>t\<close> that is \<open>t \<le> r\<close>, so a
  ratio equal to the threshold is kept and a smaller one is not.
\<close>

theorem threshold_inclusive:
  assumes "(x, y, d) \<in> set (search_trace ratio threshold funcs)"
    and "d \<noteq> Skip_same" and "d \<noteq> Skip_length"
  shows "(\<lparr>p_a = x, p_b = y, p_ratio = ratio (normalized_dump x) (normalized_dump y)\<rparr>
            \<in> set (near_pairs ratio threshold funcs)
          \<longleftrightarrow> float_ge (ratio (normalized_dump x) (normalized_dump y)) threshold) \<and>
         (\<forall>t. threshold = Finite t \<longrightarrow>
            (\<lparr>p_a = x, p_b = y, p_ratio = ratio (normalized_dump x) (normalized_dump y)\<rparr>
               \<in> set (near_pairs ratio threshold funcs)
             \<longleftrightarrow> t \<le> ratio (normalized_dump x) (normalized_dump y)))"
proof -
  let ?r = "ratio (normalized_dump x) (normalized_dump y)"
  have d: "d = compare_pair ratio threshold x y"
    using assms(1) by (rule search_trace_decision)
  have "\<lparr>p_a = x, p_b = y, p_ratio = ?r\<rparr> \<in> set (near_pairs ratio threshold funcs)
        \<longleftrightarrow> (x, y, Kept ?r) \<in> set (search_trace ratio threshold funcs)"
    by (simp add: near_pairs_member)
  also have "\<dots> \<longleftrightarrow> compare_pair ratio threshold x y = Kept ?r"
    using assms(1) d by (auto dest: search_trace_decision)
  also have "\<dots> \<longleftrightarrow> float_ge ?r threshold"
    using assms(2,3) d
    by (auto simp: compare_pair_Kept compare_pair_Skip_same compare_pair_Skip_length)
  finally have "\<lparr>p_a = x, p_b = y, p_ratio = ?r\<rparr> \<in> set (near_pairs ratio threshold funcs)
        \<longleftrightarrow> float_ge ?r threshold" .
  then show ?thesis by auto
qed

lemma distinct_index_pairs_keys:
  "distinct (map f cs) \<Longrightarrow> distinct (map (\<lambda>(x, y). {f x, f y}) (index_pairs cs))"
proof (induction cs)
  case Nil
  then show ?case by simp
next
  case (Cons c cs)
  from Cons.prems have notin: "f c \<notin> f ` set cs" and dist: "distinct (map f cs)"
    by simp_all
  have a: "distinct (map (\<lambda>y. {f c, f y}) cs)"
    using dist by (auto simp: distinct_map inj_on_def doubleton_eq_iff)
  have b: "{f c, f y} \<noteq> {f u, f v}" if "y \<in> set cs" and "(u, v) \<in> set (index_pairs cs)" for y u v
  proof -
    from that(2) have "u \<in> set cs" and "v \<in> set cs"
      by (auto dest: set_index_pairs_subset)
    with notin have "f c \<noteq> f u" and "f c \<noteq> f v" by auto
    then show ?thesis by (auto simp: doubleton_eq_iff)
  qed
  from a b Cons.IH [OF dist] show ?case
    by (auto simp: comp_def)
qed

lemma window_pairs_filter:
  "window_pairs ratio threshold cs =
     map (\<lambda>(x, y). \<lparr>p_a = x, p_b = y, p_ratio = ratio (normalized_dump x) (normalized_dump y)\<rparr>)
       (filter (\<lambda>(x, y). \<exists>r. compare_pair ratio threshold x y = Kept r) (index_pairs cs))"
proof -
  have "concat (map emit (map (\<lambda>(x, y). (x, y, compare_pair ratio threshold x y)) ps)) =
     map (\<lambda>(x, y). \<lparr>p_a = x, p_b = y, p_ratio = ratio (normalized_dump x) (normalized_dump y)\<rparr>)
       (filter (\<lambda>(x, y). \<exists>r. compare_pair ratio threshold x y = Kept r) ps)" for ps
  proof (induction ps)
    case Nil
    then show ?case by simp
  next
    case (Cons q ps)
    obtain x y where q: "q = (x, y)" by (cases q)
    show ?case
      using Cons.IH unfolding q
      by (cases "compare_pair ratio threshold x y") (auto dest: compare_pair_Kept [THEN iffD1])
  qed
  then show ?thesis by (simp add: window_pairs_def window_trace_def)
qed

lemma pair_key_window_pairs:
  "map pair_key (window_pairs ratio threshold cs) =
     map (\<lambda>(x, y). {occ_key x, occ_key y})
       (filter (\<lambda>(x, y). \<exists>r. compare_pair ratio threshold x y = Kept r) (index_pairs cs))"
  by (simp add: window_pairs_filter pair_key_def comp_def case_prod_unfold)

lemma distinct_candidates_keys:
  assumes "distinct (map occ_key funcs)"
  shows "distinct (map occ_key (candidates (build_buckets funcs) k))"
proof -
  have inj: "inj_on occ_key (set funcs)"
    using assms by (simp add: distinct_map)
  have d: "distinct (map occ_key (filter P funcs))" for P
    using assms by (rule distinct_map_filter)
  have disj: "occ_key ` {x \<in> set funcs. bucket_key (normalized_dump x) = i} \<inter>
      occ_key ` {x \<in> set funcs. bucket_key (normalized_dump x) = j} = {}" if "i \<noteq> j" for i j
  proof -
    have False if "x \<in> set funcs" "y \<in> set funcs" "occ_key x = occ_key y"
      "bucket_key (normalized_dump x) = i" "bucket_key (normalized_dump y) = j" for x y
    proof -
      from inj that(1-3) have "x = y" by (simp add: inj_on_def)
      with that(4,5) \<open>i \<noteq> j\<close> show False by simp
    qed
    then show ?thesis by blast
  qed
  show ?thesis
    unfolding candidates_build
    by (simp add: d disj Int_Un_distrib image_Un)
qed

lemma found_pairs_windows:
  "found_pairs ratio threshold funcs =
     concat (map (\<lambda>k. window_pairs ratio threshold (candidates (build_buckets funcs) k))
                 (bucket_keys (build_buckets funcs)))"
proof -
  have "concat (map emit (concat (map W ks))) = concat (map (\<lambda>k. concat (map emit (W k))) ks)"
    for W :: "int \<Rightarrow> (func \<times> func \<times> decision) list" and ks
    by (induction ks) simp_all
  then show ?thesis
    by (simp add: found_pairs_def search_trace_def window_pairs_def Let_def)
qed

lemma once_per_window:
  assumes "distinct (map occ_key funcs)"
  shows "reported_once (window_pairs ratio threshold (candidates (build_buckets funcs) k))"
  unfolding reported_once_def pair_key_window_pairs
  by (intro distinct_map_filter distinct_index_pairs_keys distinct_candidates_keys assms)

lemma count_key_le_one:
  "distinct (map f xs) \<Longrightarrow> length (filter (\<lambda>x. f x = K) xs) \<le> 1"
proof (induction xs)
  case Nil
  then show ?case by simp
next
  case (Cons x xs)
  show ?case
  proof (cases "f x = K")
    case True
    with Cons.prems have "K \<notin> f ` set xs" by simp
    then have "filter (\<lambda>x. f x = K) xs = []" by (auto simp: filter_empty_conv)
    with True show ?thesis by simp
  next
    case False
    with Cons show ?thesis by simp
  qed
qed

lemma length_filter_concat:
  "length (filter Q (concat (map W ks))) = sum_list (map (\<lambda>k. length (filter Q (W k))) ks)"
  by (induction ks) simp_all

lemma window_pairs_members:
  assumes "p \<in> set (window_pairs ratio threshold cs)"
  shows "p_a p \<in> set cs \<and> p_b p \<in> set cs"
  using assms by (auto simp: window_pairs_filter dest: set_index_pairs_subset)

lemma sum_list_indicator_le:
  assumes "\<And>k. k \<in> set ks \<Longrightarrow> c k \<le> (if P k then 1 else (0::nat))"
  shows "sum_list (map c ks) \<le> length (filter P ks)"
  using assms
proof (induction ks)
  case Nil
  then show ?case by simp
next
  case (Cons k ks)
  have "c k \<le> (if P k then 1 else 0)" by (rule Cons.prems) simp
  moreover have "sum_list (map c ks) \<le> length (filter P ks)"
    by (rule Cons.IH) (simp add: Cons.prems)
  ultimately show ?case by (simp split: if_splits)
qed

lemma near_keys_le_three:
  assumes "distinct (ks :: int list)"
  shows "length (filter (\<lambda>k. \<bar>b - k\<bar> \<le> 1) ks) \<le> 3"
proof -
  have "distinct (filter (\<lambda>k. \<bar>b - k\<bar> \<le> 1) ks)" using assms by simp
  then have "length (filter (\<lambda>k. \<bar>b - k\<bar> \<le> 1) ks) = card (set (filter (\<lambda>k. \<bar>b - k\<bar> \<le> 1) ks))"
    by (rule distinct_card [symmetric])
  also have "\<dots> \<le> card {b - 1, b, b + 1}"
    by (rule card_mono) auto
  also have "\<dots> \<le> 3" by (simp add: card_insert_if)
  finally show ?thesis .
qed

lemma at_most_three_times:
  assumes "distinct (map occ_key funcs)"
  shows "length (filter (\<lambda>p. pair_key p = K) (near_pairs ratio threshold funcs)) \<le> 3"
proof -
  let ?W = "\<lambda>k. window_pairs ratio threshold (candidates (build_buckets funcs) k)"
  let ?ks = "bucket_keys (build_buckets funcs)"
  let ?c = "\<lambda>k. length (filter (\<lambda>p. pair_key p = K) (?W k))"
  have inj: "inj_on occ_key (set funcs)"
    using assms by (simp add: distinct_map)
  have total: "length (filter (\<lambda>p. pair_key p = K) (near_pairs ratio threshold funcs)) =
      sum_list (map ?c ?ks)"
    by (simp add: near_pairs_def filter_sort found_pairs_windows length_filter_concat)
  have one: "?c k \<le> 1" for k
    using once_per_window [OF assms, of ratio threshold k]
    unfolding reported_once_def by (rule count_key_le_one)
  show ?thesis
  proof (cases "\<exists>k p. p \<in> set (?W k) \<and> pair_key p = K")
    case False
    then have "?c k = 0" for k by (auto simp: filter_empty_conv)
    then show ?thesis by (simp add: total)
  next
    case True
    then obtain k0 p0 where p0: "p0 \<in> set (?W k0)" and K: "pair_key p0 = K" by blast
    define b where "b = bucket_key (normalized_dump (p_a p0))"
    from p0 have p0_in: "p_a p0 \<in> set funcs"
      by (auto dest!: window_pairs_members simp: candidates_member)
    have near: "\<bar>b - k\<bar> \<le> 1" if "p \<in> set (?W k)" and "pair_key p = K" for k p
    proof -
      from that(1) have mem: "p_a p \<in> set (candidates (build_buckets funcs) k)"
        "p_b p \<in> set (candidates (build_buckets funcs) k)"
        by (auto dest: window_pairs_members)
      from that(2) K have "occ_key (p_a p0) = occ_key (p_a p) \<or> occ_key (p_a p0) = occ_key (p_b p)"
        by (auto simp: pair_key_def doubleton_eq_iff)
      with inj p0_in mem have "p_a p0 = p_a p \<or> p_a p0 = p_b p"
        by (auto simp: inj_on_def candidates_member)
      with mem show ?thesis
        by (auto simp: b_def candidates_member)
    qed
    have "?c k \<le> (if \<bar>b - k\<bar> \<le> 1 then 1 else 0)" for k
    proof (cases "\<bar>b - k\<bar> \<le> 1")
      case True
      with one [of k] show ?thesis by simp
    next
      case False
      with near have "filter (\<lambda>p. pair_key p = K) (?W k) = []"
        by (auto simp: filter_empty_conv)
      then show ?thesis by simp
    qed
    then have "sum_list (map ?c ?ks) \<le> length (filter (\<lambda>k. \<bar>b - k\<bar> \<le> 1) ?ks)"
      by (intro sum_list_indicator_le)
    also have "\<dots> \<le> 3"
      by (rule near_keys_le_three) (rule distinct_bucket_keys_build)
    finally show ?thesis by (simp add: total)
  qed
qed

theorem threshold_inclusive_witness:
  "(ex_a, ex_b, Kept 1) \<in> set (search_trace unit_ratio (Finite 1) [ex_a, ex_b, ex_c]) \<and>
   unit_ratio (normalized_dump ex_a) (normalized_dump ex_b) = 1 \<and>
   \<lparr>p_a = ex_a, p_b = ex_b, p_ratio = 1\<rparr>
     \<in> set (near_pairs unit_ratio (Finite 1) [ex_a, ex_b, ex_c]) \<and>
   (ex_a, ex_c, Below 0) \<in> set (search_trace unit_ratio (Finite 1) [ex_a, ex_b, ex_c]) \<and>
   unit_ratio (normalized_dump ex_a) (normalized_dump ex_c) = 0 \<and>
   \<lparr>p_a = ex_a, p_b = ex_c, p_ratio = 0\<rparr>
     \<notin> set (near_pairs unit_ratio (Finite 1) [ex_a, ex_b, ex_c])"
proof -
  have t: "search_trace unit_ratio (Finite 1) [ex_a, ex_b, ex_c] =
    [(ex_a, ex_b, Kept 1), (ex_a, ex_c, Below 0), (ex_b, ex_c, Below 0),
     (ex_c, ex_a, Below 0), (ex_c, ex_b, Below 0), (ex_a, ex_b, Kept 1)]"
    by (rule ex_abc_trace) simp_all
  have h1: "(ex_a, ex_b, Kept 1) \<in> set (search_trace unit_ratio (Finite 1) [ex_a, ex_b, ex_c])"
    and h2: "(ex_a, ex_c, Below 0) \<in> set (search_trace unit_ratio (Finite 1) [ex_a, ex_b, ex_c])"
    by (simp_all add: t)
  have r1: "unit_ratio (normalized_dump ex_a) (normalized_dump ex_b) = 1"
    and r2: "unit_ratio (normalized_dump ex_a) (normalized_dump ex_c) = 0"
    by (simp_all add: unit_ratio_def ex_a_def ex_b_def ex_c_def mk_func_def)
  from threshold_inclusive [OF h1] threshold_inclusive [OF h2] h1 h2 r1 r2
  show ?thesis by simp
qed

text \<open>
  Claim C1, as stated: no two entries of the emitted pairs refer to the same unordered
  pair of occurrences. Two functions with equal dumps of 100 characters in \<^verbatim>\<open>a.py\<close> and
  \<^verbatim>\<open>b.py\<close> and a third of 130 characters in \<^verbatim>\<open>c.py\<close>: bucket 0 holds the first two,
  bucket 1 the third, both windows hold all three, and the pair of the first two is
  appended once in each window.
\<close>

theorem pair_reported_twice:
  "report_pairs unit_ratio (Finite (3/4)) [ex_a, ex_b, ex_c] =
     [\<lparr>p_a = ex_a, p_b = ex_b, p_ratio = 1\<rparr>, \<lparr>p_a = ex_a, p_b = ex_b, p_ratio = 1\<rparr>] \<and>
   \<not> reported_once (report_pairs unit_ratio (Finite (3/4)) [ex_a, ex_b, ex_c])"
  by (simp add: report_pairs_def ex_abc_pairs reported_once_def)

text \<open>
  Claim C1, amended. \<^verbatim>\<open>pairs\<close> is the concatenation of what each candidate window
  appends (\<open>found_pairs_windows\<close>), sorted. When the records of the collection are
  distinct by path and line, one window reports an unordered pair of occurrences at most
  once, and the whole output holds it at most three times: once for each of the at most
  three windows that contain both members.
\<close>

theorem pair_once_per_window:
  assumes "distinct (map occ_key funcs)"
  shows "reported_once (window_pairs ratio threshold (candidates (build_buckets funcs) k)) \<and>
         length (filter (\<lambda>p. pair_key p = K) (near_pairs ratio threshold funcs)) \<le> 3"
  using assms by (simp add: once_per_window at_most_three_times)

theorem pair_once_per_window_witness:
  "distinct (map occ_key [ex_a, ex_b, ex_c]) \<and>
   reported_once (window_pairs unit_ratio (Finite (3/4))
     (candidates (build_buckets [ex_a, ex_b, ex_c]) 0)) \<and>
   length (filter (\<lambda>p. pair_key p = {occ_key ex_a, occ_key ex_b})
     (near_pairs unit_ratio (Finite (3/4)) [ex_a, ex_b, ex_c])) \<le> 3"
proof -
  have h: "distinct (map occ_key [ex_a, ex_b, ex_c])"
    by (simp add: occ_key_def ex_a_def ex_b_def ex_c_def mk_func_def)
  show ?thesis
    using h pair_once_per_window [OF h, of unit_ratio "Finite (3/4)" 0 "{occ_key ex_a, occ_key ex_b}"]
    by blast
qed

section \<open>The exact-match tool and the normalizers\<close>

lemma same_shape_strip: "same_shape a b \<Longrightarrow> strip a = strip b"
proof (induction rule: same_shape.induct)
  case (1 p x c p')
  show ?case by simp
next
  case (2 ann ann' p x p')
  then show ?case by (auto simp: option.rel_map option.rel_eq [symmetric] elim!: option.rel_mono_strong)
next
  case (3 po po' ar ar' va va' ko ko' kd kd' kw kw' de de')
  have l: "map strip xs = map strip ys"
    if "list_all2 (\<lambda>x y. same_shape x y \<and> strip x = strip y) xs ys" for xs ys
    using that by (induction rule: list_all2_induct) auto
  have o: "map_option strip x = map_option strip y"
    if "rel_option (\<lambda>x y. same_shape x y \<and> strip x = strip y) x y" for x y
    using that by (cases rule: option.rel_cases) auto
  have lo: "map (map_option strip) xs = map (map_option strip) ys"
    if "list_all2 (rel_option (\<lambda>x y. same_shape x y \<and> strip x = strip y)) xs ys" for xs ys
    using that by (induction rule: list_all2_induct) (auto intro: o)
  from 3 show ?case by (simp add: l o lo)
next
  case (4 ar ar' body body' decs decs' ret ret' asy p nm p')
  have l: "map strip xs = map strip ys"
    if "list_all2 (\<lambda>x y. same_shape x y \<and> strip x = strip y) xs ys" for xs ys
    using that by (induction rule: list_all2_induct) auto
  have o: "map_option strip x = map_option strip y"
    if "rel_option (\<lambda>x y. same_shape x y \<and> strip x = strip y) x y" for x y
    using that by (cases rule: option.rel_cases) auto
  from 4 show ?case by (simp add: l o)
next
  case (5 fss fss' p p' l)
  have l: "map strip xs = map strip ys"
    if "list_all2 (\<lambda>x y. same_shape x y \<and> strip x = strip y) xs ys" for xs ys
    using that by (induction rule: list_all2_induct) auto
  have ll: "map (map strip) xs = map (map strip) ys"
    if "list_all2 (list_all2 (\<lambda>x y. same_shape x y \<and> strip x = strip y)) xs ys" for xs ys
    using that by (induction rule: list_all2_induct) (auto intro: l)
  from 5 show ?case by (cases p; cases p') (simp_all add: ll)
qed

lemma fn_strip [simp]:
  "is_function n \<Longrightarrow> fn_name (strip n) = fn_name n"
  "is_function n \<Longrightarrow> fn_lineno (strip n) = None"
  by (cases n; simp add: no_position_def)+

text \<open>
  The tree that the exact-match tool serializes is the whole function definition, with
  its name and its parameters: two functions with the same body and different names
  are serialized from different trees.
\<close>

lemma strip_keeps_name:
  "is_function n1 \<Longrightarrow> is_function n2 \<Longrightarrow> fn_name n1 \<noteq> fn_name n2 \<Longrightarrow> strip n1 \<noteq> strip n2"
  by (metis fn_strip(1))

lemma top_level_functions_simps [simp]:
  "top_level_functions [] = []"
  "top_level_functions (f # fs) =
     (case snd f of Parsed body \<Rightarrow> map (Pair (fst f)) (filter is_function body) | _ \<Rightarrow> []) @
     top_level_functions fs"
  by (simp_all add: top_level_functions_def)

lemma top_level_functions_are_functions:
  "(p, n) \<in> set (top_level_functions fs) \<Longrightarrow> is_function n"
  by (auto simp: top_level_functions_def split: file_result.splits)

lemma those_append:
  "those (xs @ ys) = (case those xs of None \<Rightarrow> None | Some a \<Rightarrow> map_option ((@) a) (those ys))"
proof (induction xs)
  case Nil
  show ?case by (cases "those ys") simp_all
next
  case (Cons x xs)
  then show ?case
    by (cases x; cases "those xs"; cases "those ys") simp_all
qed

lemma those_map_option:
  "those (map (\<lambda>x. map_option g (f x)) xs) = map_option (map g) (those (map f xs))"
  by (induction xs) (auto split: option.splits simp: option.map_comp comp_def)

lemma those_Some_nth:
  "those (map f xs) = Some ys \<Longrightarrow> length ys = length xs \<and> (\<forall>i < length xs. f (xs ! i) = Some (ys ! i))"
proof (induction xs arbitrary: ys)
  case Nil
  then show ?case by simp
next
  case (Cons x xs)
  from Cons.prems obtain y ys' where y: "f x = Some y" and ys': "those (map f xs) = Some ys'"
    and ys: "ys = y # ys'"
    by (auto split: option.splits)
  from Cons.IH [OF ys'] have len: "length ys' = length xs"
    and nth: "\<forall>i < length xs. f (xs ! i) = Some (ys' ! i)" by simp_all
  show ?case
  proof (intro conjI allI impI)
    show "length ys = length (x # xs)" by (simp add: ys len)
  next
    fix i assume "i < length (x # xs)"
    then show "f ((x # xs) ! i) = Some (ys ! i)"
      using y nth by (cases i) (simp_all add: ys)
  qed
qed

lemma those_map_Some: "those (map Some xs) = Some xs"
  by (induction xs) simp_all

lemma foldl_extracted:
  "foldl (\<lambda>m (nm, ln, h). dict_append h \<lparr>path = rel, name = nm, lineno = ln\<rparr> m) idx funcs =
   foldl (\<lambda>m r. dict_append (fst r) (snd r) m) idx
     (map (\<lambda>(nm, ln, h). (h, \<lparr>path = rel, name = nm, lineno = ln\<rparr>)) funcs)"
  by (induction funcs arbitrary: idx) (simp_all add: case_prod_unfold)

lemma exact_records_file:
  "those (map (\<lambda>node. exact_record dump hash_text (rel, node)) ns) =
     map_option (map (\<lambda>(nm, ln, h). (h, \<lparr>path = rel, name = nm, lineno = ln\<rparr>)))
       (those (map (\<lambda>node.
           map_option (\<lambda>d. (fn_name (strip node), fn_lineno (strip node), hash_text d))
             (normalized_ast_dump dump node)) ns))"
proof -
  have "map (\<lambda>node. exact_record dump hash_text (rel, node)) ns =
      map (\<lambda>node. map_option (\<lambda>(nm, ln, h). (h, \<lparr>path = rel, name = nm, lineno = ln\<rparr>))
        (map_option (\<lambda>d. (fn_name (strip node), fn_lineno (strip node), hash_text d))
             (normalized_ast_dump dump node))) ns"
    by (simp add: exact_record_def option.map_comp comp_def)
  then show ?thesis by (simp only: those_map_option)
qed

lemma exact_records_Cons:
  "exact_records dump hash_text ((rel, res) # fs) =
     (case res of
        Parsed body \<Rightarrow>
          (case those (map (\<lambda>node. exact_record dump hash_text (rel, node))
                         (filter is_function body)) of
             None \<Rightarrow> None
           | Some a \<Rightarrow> map_option ((@) a) (exact_records dump hash_text fs))
      | _ \<Rightarrow> exact_records dump hash_text fs)"
  unfolding exact_records_def by (cases res) (simp_all add: those_append comp_def)

lemma exact_scan_eq:
  "exact_scan dump hash_text idx fs =
     (if Parse_crash \<in> snd ` set fs then Inl Uncaught_exception
      else case exact_records dump hash_text fs of
        None \<Rightarrow> Inl Uncaught_exception
      | Some recs \<Rightarrow> Inr (foldl (\<lambda>m r. dict_append (fst r) (snd r) m) idx recs))"
proof (induction fs arbitrary: idx)
  case Nil
  then show ?case by (simp add: exact_records_def)
next
  case (Cons f fs)
  obtain rel res where f: "f = (rel, res)" by (cases f)
  show ?case
  proof (cases res)
    case Unreadable
    then show ?thesis using Cons.IH by (simp add: f extract_functions_def exact_records_Cons)
  next
    case Syntax_error
    then show ?thesis using Cons.IH by (simp add: f extract_functions_def exact_records_Cons)
  next
    case Parse_crash
    then show ?thesis by (simp add: f extract_functions_def)
  next
    case (Parsed body)
    let ?e = "those (map (\<lambda>node.
           map_option (\<lambda>d. (fn_name (strip node), fn_lineno (strip node), hash_text d))
             (normalized_ast_dump dump node)) (filter is_function body))"
    show ?thesis
    proof (cases ?e)
      case None
      then show ?thesis
        by (simp add: f Parsed extract_functions_def exact_records_Cons exact_records_file)
    next
      case (Some funcs)
      then show ?thesis
        using Cons.IH
        by (simp add: f Parsed extract_functions_def exact_records_Cons exact_records_file
            foldl_extracted split: option.splits)
    qed
  qed
qed

lemma exact_main_eq:
  "exact_main dump hash_text e =
     (if \<not> root_exists e then Inl Root_not_found
      else if \<not> out_dir_ok e \<or> \<not> listing_ok e \<or> Parse_crash \<in> snd ` set (files e)
      then Inl Uncaught_exception
      else case exact_records dump hash_text (files e) of
        None \<Rightarrow> Inl Uncaught_exception
      | Some recs \<Rightarrow>
          if \<not> reports_ok e then Inl Report_failed else Inr (dupes_of (build_index recs)))"
  by (simp add: exact_main_def exact_scan_eq build_index_def Let_def split: option.splits)

lemma exact_main_ok:
  assumes "root_exists e" and "out_dir_ok e" and "listing_ok e" and "reports_ok e"
    and "Parse_crash \<notin> snd ` set (files e)"
    and "exact_records dump hash_text (files e) = Some recs"
  shows "exact_main dump hash_text e = Inr (dupes_of (build_index recs))"
  using assms by (simp add: exact_main_eq)

lemma exact_main_Inr:
  assumes "exact_main dump hash_text e = Inr groups"
  shows "root_exists e \<and> out_dir_ok e \<and> listing_ok e \<and> reports_ok e \<and>
    Parse_crash \<notin> snd ` set (files e) \<and>
    (\<exists>recs. exact_records dump hash_text (files e) = Some recs \<and>
            groups = dupes_of (build_index recs))"
  using assms by (auto simp: exact_main_eq split: if_splits option.splits)

lemma top_level_functions_parsed:
  "top_level_functions (filter is_parsed fs) = top_level_functions fs"
  by (induction fs) (auto simp: is_parsed_def split: file_result.splits)

lemma exact_records_parsed:
  "exact_records dump hash_text (filter is_parsed fs) = exact_records dump hash_text fs"
  by (simp add: exact_records_def top_level_functions_parsed)

lemma collect_functions_parsed:
  "collect_functions deepcopy dump (filter is_parsed fs) = collect_functions deepcopy dump fs"
  by (induction fs) (auto simp: collect_functions_def collect_file_def is_parsed_def split: file_result.splits)

lemma dupes_of_member:
  "g \<in> set (dupes_of idx) \<longleftrightarrow> (function_hash g, occurrences g) \<in> set idx \<and> 2 \<le> length (occurrences g)"
  by (cases g) (auto simp: dupes_of_def)

lemma dupes_of_sorted:
  "sorted_wrt (\<lambda>g h. length (occurrences h) \<le> length (occurrences g)) (dupes_of idx)"
proof -
  have "sorted (map (\<lambda>d. - int (length (occurrences d))) (dupes_of idx))"
    unfolding dupes_of_def by (rule sorted_sort_key)
  then show ?thesis by (simp add: sorted_map)
qed

lemma build_index_get:
  "dict_get (build_index recs) h = map snd (filter (\<lambda>r. fst r = h) recs)"
  unfolding build_index_def using dict_get_foldl [of fst snd "[]" recs h] by (simp add: dict_get_Nil)

lemma build_index_keys: "fst ` set (build_index recs) = fst ` set recs"
  unfolding build_index_def using keys_foldl [of fst snd "[]" recs] by simp

lemma build_index_distinct: "distinct (map fst (build_index recs))"
  unfolding build_index_def using distinct_keys_foldl [of "[]" fst snd recs] by simp

lemma build_index_entry:
  "(h, occs) \<in> set (build_index recs) \<longleftrightarrow>
     h \<in> fst ` set recs \<and> occs = map snd (filter (\<lambda>r. fst r = h) recs)"
proof
  assume a: "(h, occs) \<in> set (build_index recs)"
  then have "map_of (build_index recs) h = Some occs"
    using build_index_distinct [of recs] by simp
  then have "dict_get (build_index recs) h = occs" by (simp add: dict_get_def)
  moreover from a have "h \<in> fst ` set (build_index recs)" by force
  ultimately show "h \<in> fst ` set recs \<and> occs = map snd (filter (\<lambda>r. fst r = h) recs)"
    by (simp add: build_index_keys build_index_get)
next
  assume a: "h \<in> fst ` set recs \<and> occs = map snd (filter (\<lambda>r. fst r = h) recs)"
  then have "h \<in> fst ` set (build_index recs)" by (simp add: build_index_keys)
  then obtain vs where vs: "(h, vs) \<in> set (build_index recs)" by force
  then have "map_of (build_index recs) h = Some vs"
    using build_index_distinct [of recs] by simp
  then have "dict_get (build_index recs) h = vs" by (simp add: dict_get_def)
  with a have "vs = occs" by (simp add: build_index_get)
  with vs show "(h, occs) \<in> set (build_index recs)" by simp
qed

lemma two_matches:
  assumes "i < j" "j < length xs" "P (xs ! i)" "P (xs ! j)"
  shows "2 \<le> length (filter P xs)"
proof -
  define zs where "zs = take i xs"
  define ys where "ys = drop (Suc i) xs"
  have i: "i < length xs" using assms(1,2) by simp
  have "xs = zs @ xs ! i # ys"
    unfolding zs_def ys_def using i by (rule id_take_nth_drop)
  then have "filter P xs = filter P (zs @ xs ! i # ys)" by (rule arg_cong)
  then have len: "length (filter P xs) = length (filter P zs) + Suc (length (filter P ys))"
    using assms(3) by simp
  have "ys ! (j - Suc i) = xs ! j"
    unfolding ys_def using assms(1,2) by simp
  moreover have "j - Suc i < length ys"
    unfolding ys_def using assms(1,2) by simp
  ultimately have "xs ! j \<in> set ys" by (metis nth_mem)
  with assms(4) have "filter P ys \<noteq> []" by (auto simp: filter_empty_conv)
  then have "1 \<le> length (filter P ys)" by (cases "filter P ys") simp_all
  with len show ?thesis by simp
qed

lemma ex_duplicate_strip: "strip (ex_duplicate l) = strip (ex_duplicate 1)"
  by (simp add: ex_duplicate_def)

lemma ex_duplicate_same_shape: "same_shape (ex_duplicate l) (ex_duplicate l')"
  unfolding ex_duplicate_def no_params_def
  by (intro same_shape.intros) (auto intro!: same_shape.intros)

lemma ex_env_records:
  "exact_records ex_dump (\<lambda>s. s) (files ex_env) =
     Some [(show_ast (strip (ex_duplicate 1)), \<lparr>path = ''a.py'', name = ''duplicate'', lineno = None\<rparr>),
           (show_ast (strip (ex_duplicate 1)), \<lparr>path = ''b.py'', name = ''duplicate'', lineno = None\<rparr>)]"
  by (simp add: exact_records_def ex_env_def exact_record_def normalized_ast_dump_def ex_dump_def
      ex_duplicate_strip [of 3])
    (simp add: ex_duplicate_def)

lemma ex_env_exact: "exact_main ex_dump (\<lambda>s. s) ex_env = Inr [ex_group]"
proof -
  have "root_exists ex_env" "out_dir_ok ex_env" "listing_ok ex_env" "reports_ok ex_env"
    "Parse_crash \<notin> snd ` set (files ex_env)"
    by (simp_all add: ex_env_def)
  from exact_main_ok [OF this ex_env_records] show ?thesis
    by (simp add: build_index_def dupes_of_def ex_group_def)
qed

text \<open>
  Claim C4. A group is in \<^verbatim>\<open>dupes\<close> exactly when it is an entry of \<^verbatim>\<open>func_index\<close> with 2
  or more occurrences; \<^verbatim>\<open>dupes\<close> is sorted by descending occurrence count; what
  \<^verbatim>\<open>main\<close> reports is \<^verbatim>\<open>dupes\<close> of the index it built; and when the files hold no
  function (and no parse raises past the handler) the scan ends with the empty index,
  \<^verbatim>\<open>dupes\<close> is the empty list, and the run reports the empty list of groups, not an
  error, provided that nothing around the scan raises: the root exists, the output
  directory is made, the files are listed and the reports are written.
\<close>

theorem duplicate_groups_reported:
  "(g \<in> set (dupes_of func_index) \<longleftrightarrow>
      (function_hash g, occurrences g) \<in> set func_index \<and> 2 \<le> length (occurrences g)) \<and>
   sorted_wrt (\<lambda>g h. length (occurrences h) \<le> length (occurrences g)) (dupes_of func_index) \<and>
   (exact_main dump hash_text e = Inr groups \<longrightarrow>
      (\<exists>idx. exact_scan dump hash_text [] (files e) = Inr idx \<and> groups = dupes_of idx)) \<and>
   (Parse_crash \<notin> snd ` set (files e) \<and> top_level_functions (files e) = [] \<longrightarrow>
      exact_scan dump hash_text [] (files e) = Inr [] \<and> dupes_of [] = []) \<and>
   (root_exists e \<and> out_dir_ok e \<and> listing_ok e \<and> reports_ok e \<and>
    Parse_crash \<notin> snd ` set (files e) \<and>
    top_level_functions (files e) = [] \<longrightarrow> exact_main dump hash_text e = Inr [])"
proof -
  have "exact_main dump hash_text e = Inr groups \<longrightarrow>
      (\<exists>idx. exact_scan dump hash_text [] (files e) = Inr idx \<and> groups = dupes_of idx)"
    by (auto simp: exact_main_def Let_def split: if_splits sum.splits)
  moreover have "Parse_crash \<notin> snd ` set (files e) \<and> top_level_functions (files e) = [] \<longrightarrow>
      exact_scan dump hash_text [] (files e) = Inr [] \<and> dupes_of [] = []"
    by (simp add: exact_scan_eq exact_records_def dupes_of_def)
  moreover have "root_exists e \<and> out_dir_ok e \<and> listing_ok e \<and> reports_ok e \<and>
      Parse_crash \<notin> snd ` set (files e) \<and>
      top_level_functions (files e) = [] \<longrightarrow> exact_main dump hash_text e = Inr []"
    by (simp add: exact_main_eq exact_records_def build_index_def dupes_of_def)
  ultimately show ?thesis
    using dupes_of_member [of g func_index] dupes_of_sorted [of func_index] by blast
qed

theorem duplicate_groups_reported_witness:
  "exact_main ex_dump (\<lambda>s. s) ex_env = Inr [ex_group] \<and>
   (\<exists>idx. exact_scan ex_dump (\<lambda>s. s) [] (files ex_env) = Inr idx \<and> [ex_group] = dupes_of idx) \<and>
   root_exists (ex_env\<lparr>files := []\<rparr>) \<and> out_dir_ok (ex_env\<lparr>files := []\<rparr>) \<and>
   listing_ok (ex_env\<lparr>files := []\<rparr>) \<and> reports_ok (ex_env\<lparr>files := []\<rparr>) \<and>
   Parse_crash \<notin> snd ` set (files (ex_env\<lparr>files := []\<rparr>)) \<and>
   top_level_functions (files (ex_env\<lparr>files := []\<rparr>)) = [] \<and>
   exact_scan ex_dump (\<lambda>s. s) [] (files (ex_env\<lparr>files := []\<rparr>)) = Inr [] \<and>
   exact_main ex_dump (\<lambda>s. s) (ex_env\<lparr>files := []\<rparr>) = Inr []"
proof -
  have h: "root_exists (ex_env\<lparr>files := []\<rparr>) \<and> out_dir_ok (ex_env\<lparr>files := []\<rparr>) \<and>
      listing_ok (ex_env\<lparr>files := []\<rparr>) \<and> reports_ok (ex_env\<lparr>files := []\<rparr>) \<and>
      Parse_crash \<notin> snd ` set (files (ex_env\<lparr>files := []\<rparr>)) \<and>
      top_level_functions (files (ex_env\<lparr>files := []\<rparr>)) = []"
    by (simp add: ex_env_def)
  from duplicate_groups_reported [of ex_group "[]" ex_dump "\<lambda>s. s" ex_env "[ex_group]"]
    duplicate_groups_reported [of ex_group "[]" ex_dump "\<lambda>s. s" "ex_env\<lparr>files := []\<rparr>" "[]"]
    h ex_env_exact
  show ?thesis by blast
qed

text \<open>
  Claim C3. Two top-level function definitions of the scanned files that are structurally
  identical except for their position attributes get the same normalized dump, hence the
  same hash, and a run that completes reports a group with that hash which holds the
  occurrences of both.
\<close>

theorem same_shape_grouped:
  assumes "same_shape n1 n2"
    and "exact_main dump hash_text e = Inr groups"
    and "i < j" and "j < length (top_level_functions (files e))"
    and "top_level_functions (files e) ! i = (p1, n1)"
    and "top_level_functions (files e) ! j = (p2, n2)"
  shows "normalized_ast_dump dump n1 = normalized_ast_dump dump n2 \<and>
    (\<exists>d. normalized_ast_dump dump n1 = Some d \<and>
      (\<exists>g \<in> set groups.
         function_hash g = hash_text d \<and>
         \<lparr>path = p1, name = fn_name n1, lineno = None\<rparr> \<in> set (occurrences g) \<and>
         \<lparr>path = p2, name = fn_name n2, lineno = None\<rparr> \<in> set (occurrences g)))"
proof -
  let ?tl = "top_level_functions (files e)"
  from exact_main_Inr [OF assms(2)] obtain recs where
    recs: "exact_records dump hash_text (files e) = Some recs"
    and groups: "groups = dupes_of (build_index recs)"
    by blast
  from recs have len: "length recs = length ?tl"
    and nth: "\<forall>k < length ?tl. exact_record dump hash_text (?tl ! k) = Some (recs ! k)"
    unfolding exact_records_def by (auto dest: those_Some_nth)
  have dump_eq: "normalized_ast_dump dump n1 = normalized_ast_dump dump n2"
    using same_shape_strip [OF assms(1)] by (simp add: normalized_ast_dump_def)
  have i: "i < length ?tl" using assms(3,4) by simp
  have "(p1, n1) \<in> set ?tl" and "(p2, n2) \<in> set ?tl"
    using i assms(4-6) by (metis nth_mem)+
  then have f1: "is_function n1" and f2: "is_function n2"
    by (auto dest: top_level_functions_are_functions)
  from nth i assms(5) have "exact_record dump hash_text (p1, n1) = Some (recs ! i)" by auto
  then obtain d where d: "normalized_ast_dump dump n1 = Some d"
    and r1: "recs ! i = (hash_text d, \<lparr>path = p1, name = fn_name n1, lineno = None\<rparr>)"
    using f1 by (auto simp: exact_record_def)
  from nth assms(4,6) have "exact_record dump hash_text (p2, n2) = Some (recs ! j)" by auto
  then have r2: "recs ! j = (hash_text d, \<lparr>path = p2, name = fn_name n2, lineno = None\<rparr>)"
    using f2 d dump_eq by (auto simp: exact_record_def)
  let ?h = "hash_text d"
  let ?occs = "map snd (filter (\<lambda>r. fst r = ?h) recs)"
  have "2 \<le> length (filter (\<lambda>r. fst r = ?h) recs)"
    using assms(3) assms(4) [folded len] r1 r2 by (intro two_matches [of i j]) simp_all
  then have two: "2 \<le> length ?occs" by simp
  have li: "i < length recs" and lj: "j < length recs"
    using i assms(4) len by simp_all
  have "recs ! i \<in> set recs" using li by (rule nth_mem)
  moreover have "recs ! j \<in> set recs" using lj by (rule nth_mem)
  ultimately have m1: "(?h, \<lparr>path = p1, name = fn_name n1, lineno = None\<rparr>) \<in> set recs"
    and m2: "(?h, \<lparr>path = p2, name = fn_name n2, lineno = None\<rparr>) \<in> set recs"
    by (simp_all only: r1 r2)
  have sel: "v \<in> set (map snd (filter (\<lambda>r. fst r = h) rs))" if "(h, v) \<in> set rs"
    for h :: string and v :: occurrence and rs
    using that by force
  have o1: "\<lparr>path = p1, name = fn_name n1, lineno = None\<rparr> \<in> set ?occs"
    using m1 by (rule sel)
  have o2: "\<lparr>path = p2, name = fn_name n2, lineno = None\<rparr> \<in> set ?occs"
    using m2 by (rule sel)
  have key: "h \<in> fst ` set rs" if "(h, v) \<in> set rs"
    for h :: string and v :: occurrence and rs
    using that by force
  have "?h \<in> fst ` set recs" using m1 by (rule key)
  then have "(?h, ?occs) \<in> set (build_index recs)" by (simp add: build_index_entry)
  with two have "\<lparr>function_hash = ?h, occurrences = ?occs\<rparr> \<in> set groups"
    by (simp add: groups dupes_of_member)
  with o1 o2 d dump_eq show ?thesis by force
qed

theorem same_shape_grouped_witness:
  "same_shape (ex_duplicate 1) (ex_duplicate 3) \<and>
   exact_main ex_dump (\<lambda>s. s) ex_env = Inr [ex_group] \<and>
   (0::nat) < 1 \<and> 1 < length (top_level_functions (files ex_env)) \<and>
   top_level_functions (files ex_env) ! 0 = (''a.py'', ex_duplicate 1) \<and>
   top_level_functions (files ex_env) ! 1 = (''b.py'', ex_duplicate 3) \<and>
   fn_lineno (ex_duplicate 1) \<noteq> fn_lineno (ex_duplicate 3) \<and>
   normalized_ast_dump ex_dump (ex_duplicate 1) = normalized_ast_dump ex_dump (ex_duplicate 3) \<and>
   (\<exists>d. normalized_ast_dump ex_dump (ex_duplicate 1) = Some d \<and>
     (\<exists>g \<in> set [ex_group].
        function_hash g = d \<and>
        \<lparr>path = ''a.py'', name = fn_name (ex_duplicate 1), lineno = None\<rparr> \<in> set (occurrences g) \<and>
        \<lparr>path = ''b.py'', name = fn_name (ex_duplicate 3), lineno = None\<rparr> \<in> set (occurrences g)))"
proof -
  have h1: "same_shape (ex_duplicate 1) (ex_duplicate 3)" by (rule ex_duplicate_same_shape)
  have h2: "exact_main ex_dump (\<lambda>s. s) ex_env = Inr [ex_group]" by (rule ex_env_exact)
  have h3: "(0::nat) < 1" by simp
  have tl: "top_level_functions (files ex_env) = [(''a.py'', ex_duplicate 1), (''b.py'', ex_duplicate 3)]"
    by (simp add: ex_env_def ex_duplicate_def)
  have h4: "1 < length (top_level_functions (files ex_env))" by (simp add: tl)
  have h5: "top_level_functions (files ex_env) ! 0 = (''a.py'', ex_duplicate 1)" by (simp add: tl)
  have h6: "top_level_functions (files ex_env) ! 1 = (''b.py'', ex_duplicate 3)" by (simp add: tl)
  have h7: "fn_lineno (ex_duplicate 1) \<noteq> fn_lineno (ex_duplicate 3)"
    by (simp add: ex_duplicate_def pos_def)
  from same_shape_grouped [OF h1 h2 h3 h4 h5 h6] h1 h2 h3 h4 h5 h6 h7
  show ?thesis by auto
qed

lemma str_nat_digit: "n < 10 \<Longrightarrow> str_nat n = [''0123456789'' ! n]"
  by (subst str_nat.simps) simp

lemma str_nat_0_1 [simp]: "str_nat 0 = ''0''" "str_nat (Suc 0) = ''1''"
  by (simp_all add: str_nat_digit)

text \<open>
  Claim C2 says that the \<open>i\<close>-th positional parameter is renamed to \<^verbatim>\<open>ARGi\<close> and that a
  reference to a parameter gets the parameter's placeholder. On
  \<^verbatim>\<open>def f(x, ARG0): return x\<close> the first loop renames the parameters to \<^verbatim>\<open>ARG0\<close> and
  \<^verbatim>\<open>ARG1\<close> and records \<^verbatim>\<open>x \<rightarrow> ARG0\<close>, \<^verbatim>\<open>ARG0 \<rightarrow> ARG1\<close>; the walk then finds the
  first parameter under its new name \<^verbatim>\<open>ARG0\<close>, which is a key of \<^verbatim>\<open>arg_map\<close>, and
  renames it again. The dumped tree declares \<^verbatim>\<open>ARG1\<close> twice and returns \<^verbatim>\<open>ARG0\<close>.
\<close>

theorem parameter_renamed_twice:
  "normalized_tree ex_collide =
     Some (FunctionDef False no_position ''FUNC''
       (Arguments [] [Arg no_position ''ARG1'' None, Arg no_position ''ARG1'' None] None [] [] None [])
       [Other ''Return'' (Some no_position) [[Name no_position ''ARG0'' ''Load'']]]
       [] None)"
  by (simp add: ex_collide_def walk_def assign_names_def rename_ident_def literal_name_def)

text \<open>
  On \<^verbatim>\<open>def f(x): y = x + 1; return y\<close>, whatever the three names are, the parameter
  becomes \<^verbatim>\<open>ARG0\<close> and the local variable \<^verbatim>\<open>VAR0\<close>.
\<close>

lemma normalized_renamed:
  "x \<noteq> y \<Longrightarrow> \<not> literal_name x \<Longrightarrow> \<not> literal_name y \<Longrightarrow> x \<noteq> ''ARG0'' \<Longrightarrow>
   normalized_tree (ex_renamed l f x y) =
     Some (FunctionDef False no_position ''FUNC''
       (Arguments [] [Arg no_position ''ARG0'' None] None [] [] None [])
       [Other ''Assign'' (Some no_position)
          [[Name no_position ''VAR0'' ''Store''],
           [Other ''BinOp'' (Some no_position)
              [[Name no_position ''ARG0'' ''Load''], [Other ''Add'' None []],
               [Other ''Constant(1)'' (Some no_position) []]]]],
        Other ''Return'' (Some no_position) [[Name no_position ''VAR0'' ''Load'']]]
       [] None)"
  by (simp add: ex_renamed_def walk_def assign_names_def rename_ident_def)

text \<open>
  The first loop reads \<^verbatim>\<open>args.args\<close>, \<^verbatim>\<open>args.vararg\<close> and \<^verbatim>\<open>args.kwarg\<close> only. A
  positional-only parameter (and likewise a keyword-only one) is no key of \<^verbatim>\<open>arg_map\<close>:
  its \<^verbatim>\<open>arg\<close> node keeps the source name, and a reference to it gets a \<^verbatim>\<open>VAR\<close>
  placeholder.
\<close>

lemma positional_only_kept:
  "\<not> literal_name p \<Longrightarrow>
   normalized_tree (ex_posonly p) =
     Some (FunctionDef False no_position ''FUNC''
       (Arguments [Arg no_position p None] [] None [] [] None [])
       [Other ''Return'' (Some no_position) [[Name no_position ''VAR0'' ''Load'']]]
       [] None)"
  by (simp add: ex_posonly_def walk_def assign_names_def rename_ident_def)

section \<open>Names after normalization\<close>

text \<open>
  The second loop's \<^verbatim>\<open>name_map\<close> is the map from each identifier of \<open>seen_order\<close> to
  \<^verbatim>\<open>VAR\<close> and its index: numbers are given in the order of first occurrence in the walk.
\<close>

lemma distinct_add_seen: "distinct seen \<Longrightarrow> distinct (add_seen seen x)"
  by (simp add: add_seen_def)

lemma distinct_foldl_add_seen: "distinct seen \<Longrightarrow> distinct (foldl add_seen seen xs)"
  by (induction xs arbitrary: seen) (simp_all add: distinct_add_seen)

lemma set_foldl_add_seen: "set (foldl add_seen seen xs) = set seen \<union> set xs"
  by (induction xs arbitrary: seen) (auto simp: add_seen_def)

lemma pos_in_append_old: "x \<in> set seen \<Longrightarrow> pos_in (seen @ ys) x = pos_in seen x"
  by (simp add: pos_in_def takeWhile_append1 [where x = x])

lemma pos_in_append_new:
  assumes "x \<notin> set seen"
  shows "pos_in (seen @ [x]) x = length seen"
proof -
  have "takeWhile (\<lambda>y. y \<noteq> x) (seen @ [x]) = seen @ takeWhile (\<lambda>y. y \<noteq> x) [x]"
    by (rule takeWhile_append2) (use assms in auto)
  then show ?thesis by (simp add: pos_in_def)
qed

lemma var_map_snoc:
  "x \<notin> set seen \<Longrightarrow>
   var_map (seen @ [x]) = (var_map seen)(x \<mapsto> ''VAR'' @ str_nat (length seen))"
  by (auto simp: var_map_def fun_eq_iff pos_in_append_old pos_in_append_new)

lemma assign_name_step:
  "assign_name am (var_map seen, length seen) t =
     (var_map (foldl add_seen seen (free_ident am t)),
      length (foldl add_seen seen (free_ident am t)))"
proof (cases t)
  case (Name p ident c)
  show ?thesis
  proof (cases "literal_name ident \<or> am ident \<noteq> None")
    case True
    then show ?thesis by (auto simp: Name)
  next
    case False
    show ?thesis
    proof (cases "ident \<in> set seen")
      case True
      with False show ?thesis by (simp add: Name add_seen_def var_map_def)
    next
      case notin: False
      then have "var_map seen ident = None" by (simp add: var_map_def)
      with False notin show ?thesis by (simp add: Name add_seen_def var_map_snoc)
    qed
  qed
qed simp_all

lemma assign_fold:
  "foldl (assign_name am) (var_map seen, length seen) ts =
     (var_map (foldl add_seen seen (free_idents am ts)),
      length (foldl add_seen seen (free_idents am ts)))"
proof (induction ts arbitrary: seen)
  case Nil
  then show ?case by (simp add: free_idents_def)
next
  case (Cons t ts)
  show ?case
    using Cons.IH [of "foldl add_seen seen (free_ident am t)"]
    by (simp add: assign_name_step free_idents_def)
qed

lemma assign_names_eq: "assign_names am ts = var_map (seen_order (free_idents am ts))"
proof -
  have "var_map [] = Map.empty" by (simp add: var_map_def fun_eq_iff)
  with assign_fold [of am "[]" ts] show ?thesis
    by (simp add: assign_names_def seen_order_def)
qed

lemma children_rename_tree:
  "children (rename_tree am nm t) = map (rename_tree am nm) (children t)"
proof -
  have o: "opt_list (map_option g u) = map g (opt_list u)" for g :: "ast \<Rightarrow> ast" and u
    by (cases u) simp_all
  then have oc: "opt_list \<circ> map_option g = map g \<circ> opt_list" for g :: "ast \<Rightarrow> ast"
    by (simp add: fun_eq_iff)
  show ?thesis by (cases t) (simp_all add: o oc map_concat)
qed

lemma children_strip: "children (strip t) = map strip (children t)"
proof -
  have o: "opt_list (map_option g u) = map g (opt_list u)" for g :: "ast \<Rightarrow> ast" and u
    by (cases u) simp_all
  then have oc: "opt_list \<circ> map_option g = map g \<circ> opt_list" for g :: "ast \<Rightarrow> ast"
    by (simp add: fun_eq_iff)
  show ?thesis by (cases t) (simp_all add: o oc map_concat)
qed

lemma bfs_map:
  assumes "\<And>t. children (g t) = map g (children t)"
  shows "bfs (map g todo) = map g (bfs todo)"
  by (induction todo rule: bfs.induct) (simp_all add: assms)

lemma walk_normalized:
  "walk (strip (rename_tree am nm n)) = map (\<lambda>t. strip (rename_tree am nm t)) (walk n)"
proof -
  have "children (strip (rename_tree am nm t)) = map (\<lambda>t. strip (rename_tree am nm t)) (children t)" for t
    by (simp add: children_strip children_rename_tree)
  from bfs_map [of "\<lambda>t. strip (rename_tree am nm t)", OF this, of "[n]"]
  show ?thesis by (simp add: walk_def)
qed

text \<open>
  The first loop on a list of \<^verbatim>\<open>arg\<close> nodes: parameter \<open>k\<close> is named \<^verbatim>\<open>ARGk\<close>, the keys
  of \<^verbatim>\<open>arg_map\<close> are the old names, and with distinct names parameter \<open>k\<close>'s old name
  maps to \<^verbatim>\<open>ARGk\<close>.
\<close>

lemma rename_args_Arg:
  "rename_args i m (Arg p x ann # rest) =
     (fst (rename_args (Suc i) (m(x \<mapsto> ''ARG'' @ str_nat i)) rest),
      Arg p (''ARG'' @ str_nat i) ann # snd (rename_args (Suc i) (m(x \<mapsto> ''ARG'' @ str_nat i)) rest))"
  by (simp add: case_prod_unfold Let_def)

lemma rename_args_names:
  "list_all is_arg ar \<Longrightarrow>
   map arg_name (snd (rename_args i m ar)) = map (\<lambda>k. ''ARG'' @ str_nat k) [i..<i + length ar]"
proof (induction ar arbitrary: i m)
  case Nil
  then show ?case by simp
next
  case (Cons a ar)
  then obtain p x ann where a: "a = Arg p x ann" by (cases a) simp_all
  let ?M = "m(x \<mapsto> ''ARG'' @ str_nat i)"
  from Cons.prems have wf: "list_all is_arg ar" by simp
  have ih: "map arg_name (snd (rename_args (Suc i) ?M ar)) =
      map (\<lambda>k. ''ARG'' @ str_nat k) [Suc i..<Suc i + length ar]"
    by (rule Cons.IH [OF wf])
  have up: "[i..<i + length (a # ar)] = i # [Suc i..<Suc i + length ar]"
    using upt_conv_Cons [of i "i + length (a # ar)"] by (simp del: upt_Suc)
  have "map arg_name (snd (rename_args i m (a # ar))) =
      (''ARG'' @ str_nat i) # map arg_name (snd (rename_args (Suc i) ?M ar))"
    unfolding a rename_args_Arg by (simp only: snd_conv list.map arg_name.simps)
  also have "\<dots> = map (\<lambda>k. ''ARG'' @ str_nat k) (i # [Suc i..<Suc i + length ar])"
    unfolding ih by (simp only: list.map)
  finally show ?case unfolding up .
qed

lemma rename_args_keep:
  "list_all is_arg ar \<Longrightarrow> y \<notin> arg_name ` set ar \<Longrightarrow> fst (rename_args i m ar) y = m y"
proof (induction ar arbitrary: i m)
  case Nil
  then show ?case by simp
next
  case (Cons a ar)
  then obtain p x ann where a: "a = Arg p x ann" by (cases a) simp_all
  let ?M = "m(x \<mapsto> ''ARG'' @ str_nat i)"
  from Cons.prems have wf: "list_all is_arg ar" and ny: "y \<notin> arg_name ` set ar" and yx: "y \<noteq> x"
    by (auto simp: a)
  have "fst (rename_args i m (a # ar)) y = fst (rename_args (Suc i) ?M ar) y"
    unfolding a rename_args_Arg by (simp only: fst_conv)
  also have "\<dots> = ?M y" by (rule Cons.IH [OF wf ny])
  also have "\<dots> = m y" using yx by simp
  finally show ?case .
qed

lemma rename_args_dom:
  "list_all is_arg ar \<Longrightarrow> dom (fst (rename_args i m ar)) = dom m \<union> arg_name ` set ar"
proof (induction ar arbitrary: i m)
  case Nil
  then show ?case by simp
next
  case (Cons a ar)
  then obtain p x ann where a: "a = Arg p x ann" by (cases a) simp_all
  let ?M = "m(x \<mapsto> ''ARG'' @ str_nat i)"
  from Cons.prems have wf: "list_all is_arg ar" by simp
  have "dom (fst (rename_args i m (a # ar))) = dom (fst (rename_args (Suc i) ?M ar))"
    unfolding a rename_args_Arg by (simp only: fst_conv)
  also have "\<dots> = dom ?M \<union> arg_name ` set ar" by (rule Cons.IH [OF wf])
  also have "\<dots> = dom m \<union> arg_name ` set (a # ar)" by (simp add: a)
  finally show ?case .
qed

lemma rename_args_lookup:
  "list_all is_arg ar \<Longrightarrow> distinct (map arg_name ar) \<Longrightarrow> k < length ar \<Longrightarrow>
   fst (rename_args i m ar) (arg_name (ar ! k)) = Some (''ARG'' @ str_nat (i + k))"
proof (induction ar arbitrary: i m k)
  case Nil
  then show ?case by simp
next
  case (Cons a ar)
  then obtain p x ann where a: "a = Arg p x ann" by (cases a) simp_all
  let ?M = "m(x \<mapsto> ''ARG'' @ str_nat i)"
  from Cons.prems have wf: "list_all is_arg ar" and d: "distinct (map arg_name ar)"
    and nx: "x \<notin> arg_name ` set ar"
    by (simp_all add: a)
  have step: "fst (rename_args i m (a # ar)) z = fst (rename_args (Suc i) ?M ar) z" for z
    unfolding a rename_args_Arg by (simp only: fst_conv)
  show ?case
  proof (cases k)
    case 0
    have "fst (rename_args i m (a # ar)) x = ?M x"
      unfolding step by (rule rename_args_keep [OF wf nx])
    then show ?thesis by (simp add: 0 a)
  next
    case (Suc k')
    with Cons.prems have k': "k' < length ar" by simp
    have "fst (rename_args (Suc i) ?M ar) (arg_name (ar ! k')) = Some (''ARG'' @ str_nat (Suc i + k'))"
      by (rule Cons.IH [OF wf d k'])
    then show ?thesis unfolding step Suc by simp
  qed
qed

lemma rename_args_is_arg:
  "list_all is_arg ar \<Longrightarrow> list_all is_arg (snd (rename_args i m ar))"
proof (induction ar arbitrary: i m)
  case Nil
  then show ?case by simp
next
  case (Cons a ar)
  then obtain p x ann where a: "a = Arg p x ann" by (cases a) simp_all
  from Cons.prems have wf: "list_all is_arg ar" by simp
  show ?case unfolding a rename_args_Arg using Cons.IH [OF wf] by simp
qed

lemma rename_args_length: "length (snd (rename_args i m ar)) = length ar"
  by (induction i m ar rule: rename_args.induct)
    (simp_all add: case_prod_unfold Let_def del: fun_upd_apply)

lemma rename_star_arg:
  assumes "list_all is_arg (opt_list va)"
  shows "\<exists>m' va'. rename_star ph m va = Some (m', va') \<and>
     dom m' = dom m \<union> arg_name ` set (opt_list va) \<and>
     (\<forall>y. y \<notin> arg_name ` set (opt_list va) \<longrightarrow> m' y = m y) \<and>
     (\<forall>a \<in> set (opt_list va). m' (arg_name a) = Some ph) \<and>
     list_all is_arg (opt_list va') \<and>
     map_option arg_name va' = map_option (\<lambda>_. ph) va"
proof (cases va)
  case None
  then show ?thesis by simp
next
  case (Some a)
  with assms obtain p x ann where a: "a = Arg p x ann" by (cases a) simp_all
  show ?thesis unfolding Some a by auto
qed

lemma rename_params_wf:
  assumes wf: "wf_params ar va kw"
  obtains am ar' va' kw' where
    "rename_params (Arguments po ar va ko kd kw de) = (am, Arguments po ar' va' ko kd kw' de)"
    "dom am = param_names ar va kw"
    "wf_params ar' va' kw'"
    "map arg_name ar' = map (\<lambda>k. ''ARG'' @ str_nat k) [0..<length ar]"
    "map_option arg_name va' = map_option (\<lambda>_. ''VARARG'') va"
    "map_option arg_name kw' = map_option (\<lambda>_. ''KWARG'') kw"
    "distinct (map arg_name (ar @ opt_list va @ opt_list kw)) \<Longrightarrow>
       (\<forall>k<length ar. am (arg_name (ar ! k)) = Some (''ARG'' @ str_nat k)) \<and>
       (\<forall>a\<in>set (opt_list va). am (arg_name a) = Some ''VARARG'') \<and>
       (\<forall>a\<in>set (opt_list kw). am (arg_name a) = Some ''KWARG'')"
proof -
  from wf have w1: "list_all is_arg ar" and w2: "list_all is_arg (opt_list va)"
    and w3: "list_all is_arg (opt_list kw)"
    by (simp_all add: wf_params_def)
  define m1 where "m1 = fst (rename_args 0 Map.empty ar)"
  define ar' where "ar' = snd (rename_args 0 Map.empty ar)"
  have ra: "rename_args 0 Map.empty ar = (m1, ar')" by (simp add: m1_def ar'_def)
  from rename_star_arg [OF w2, of "''VARARG''" m1] obtain m2 va' where
    s2: "rename_star ''VARARG'' m1 va = Some (m2, va')"
    and d2: "dom m2 = dom m1 \<union> arg_name ` set (opt_list va)"
    and k2: "\<And>y. y \<notin> arg_name ` set (opt_list va) \<Longrightarrow> m2 y = m1 y"
    and l2: "\<And>a. a \<in> set (opt_list va) \<Longrightarrow> m2 (arg_name a) = Some ''VARARG''"
    and i2: "list_all is_arg (opt_list va')"
    and n2: "map_option arg_name va' = map_option (\<lambda>_. ''VARARG'') va"
    by blast
  from rename_star_arg [OF w3, of "''KWARG''" m2] obtain m3 kw' where
    s3: "rename_star ''KWARG'' m2 kw = Some (m3, kw')"
    and d3: "dom m3 = dom m2 \<union> arg_name ` set (opt_list kw)"
    and k3: "\<And>y. y \<notin> arg_name ` set (opt_list kw) \<Longrightarrow> m3 y = m2 y"
    and l3: "\<And>a. a \<in> set (opt_list kw) \<Longrightarrow> m3 (arg_name a) = Some ''KWARG''"
    and i3: "list_all is_arg (opt_list kw')"
    and n3: "map_option arg_name kw' = map_option (\<lambda>_. ''KWARG'') kw"
    by blast
  have rp: "rename_params (Arguments po ar va ko kd kw de) = (m3, Arguments po ar' va' ko kd kw' de)"
    by (simp add: ra s2 s3)
  have d1: "dom m1 = arg_name ` set ar"
    unfolding m1_def using rename_args_dom [OF w1, of 0 Map.empty] by simp
  have dm: "dom m3 = param_names ar va kw"
    unfolding d3 d2 d1 param_names_def
    by (cases va; cases kw) auto
  have wf': "wf_params ar' va' kw'"
    unfolding wf_params_def ar'_def using rename_args_is_arg [OF w1] i2 i3 by simp
  have nm: "map arg_name ar' = map (\<lambda>k. ''ARG'' @ str_nat k) [0..<length ar]"
    unfolding ar'_def using rename_args_names [OF w1, of 0 Map.empty] by simp
  have lk: "(\<forall>k<length ar. m3 (arg_name (ar ! k)) = Some (''ARG'' @ str_nat k)) \<and>
       (\<forall>a\<in>set (opt_list va). m3 (arg_name a) = Some ''VARARG'') \<and>
       (\<forall>a\<in>set (opt_list kw). m3 (arg_name a) = Some ''KWARG'')"
    if dist: "distinct (map arg_name (ar @ opt_list va @ opt_list kw))"
  proof (intro conjI allI impI ballI)
    fix k assume k: "k < length ar"
    from dist have da: "distinct (map arg_name ar)" by simp
    from k have mem: "ar ! k \<in> set ar" by simp
    with dist have "arg_name (ar ! k) \<notin> arg_name ` set (opt_list va)"
      and "arg_name (ar ! k) \<notin> arg_name ` set (opt_list kw)"
      by auto
    then have "m3 (arg_name (ar ! k)) = m1 (arg_name (ar ! k))" by (simp add: k2 k3)
    also have "\<dots> = Some (''ARG'' @ str_nat (0 + k))"
      unfolding m1_def by (rule rename_args_lookup [OF w1 da k])
    finally show "m3 (arg_name (ar ! k)) = Some (''ARG'' @ str_nat k)" by simp
  next
    fix a assume a: "a \<in> set (opt_list va)"
    with dist have "arg_name a \<notin> arg_name ` set (opt_list kw)" by auto
    then have "m3 (arg_name a) = m2 (arg_name a)" by (rule k3)
    with l2 [OF a] show "m3 (arg_name a) = Some ''VARARG''" by simp
  next
    fix a assume "a \<in> set (opt_list kw)"
    then show "m3 (arg_name a) = Some ''KWARG''" by (rule l3)
  qed
  from that [OF rp dm wf' nm n2 n3 lk] show thesis .
qed

lemma arg_name_kept:
  "is_arg a \<Longrightarrow> am (arg_name a) = None \<Longrightarrow> arg_name (strip (rename_tree am nm a)) = arg_name a"
  by (cases a) simp_all

text \<open>
  When no declared name is itself one of the placeholders handed out, the parameters of
  the normalized tree are \<^verbatim>\<open>ARG0\<close>, \<^verbatim>\<open>ARG1\<close>, ..., \<^verbatim>\<open>VARARG\<close> and \<^verbatim>\<open>KWARG\<close>: the second
  loop finds none of the new names in \<^verbatim>\<open>arg_map\<close>.
\<close>

lemma normalized_params:
  assumes wf: "wf_params ar va kw"
    and free: "placeholders ar va kw \<inter> param_names ar va kw = {}"
  shows "map_option declared_params
      (normalized_tree (FunctionDef asy p f (Arguments po ar va ko kd kw de) body decs ret)) =
    Some (map (\<lambda>k. ''ARG'' @ str_nat k) [0..<length ar],
          map_option (\<lambda>_. ''VARARG'') va, map_option (\<lambda>_. ''KWARG'') kw)"
proof -
  from rename_params_wf [OF wf, of po ko kd de] obtain am ar' va' kw' where
    rp: "rename_params (Arguments po ar va ko kd kw de) = (am, Arguments po ar' va' ko kd kw' de)"
    and dm: "dom am = param_names ar va kw"
    and wf': "wf_params ar' va' kw'"
    and n1: "map arg_name ar' = map (\<lambda>k. ''ARG'' @ str_nat k) [0..<length ar]"
    and n2: "map_option arg_name va' = map_option (\<lambda>_. ''VARARG'') va"
    and n3: "map_option arg_name kw' = map_option (\<lambda>_. ''KWARG'') kw"
    by metis
  define nm where
    "nm = assign_names am (walk (FunctionDef asy p ''FUNC'' (Arguments po ar' va' ko kd kw' de) body decs ret))"
  let ?g = "\<lambda>t. strip (rename_tree am nm t)"
  have out: "am x = None" if "x \<in> placeholders ar va kw" for x
    using that free dm by (auto simp: dom_def)
  have p1: "set (map arg_name ar') \<subseteq> placeholders ar va kw"
    unfolding n1 by (auto simp: placeholders_def)
  have p2: "set_option (map_option arg_name va') \<subseteq> placeholders ar va kw"
    unfolding n2 by (cases va) (auto simp: placeholders_def)
  have p3: "set_option (map_option arg_name kw') \<subseteq> placeholders ar va kw"
    unfolding n3 by (cases kw) (auto simp: placeholders_def)
  from wf' have i1: "list_all is_arg ar'" and i2: "list_all is_arg (opt_list va')"
    and i3: "list_all is_arg (opt_list kw')"
    by (simp_all add: wf_params_def)
  have a1: "map (\<lambda>a. arg_name (?g a)) ar' = map arg_name ar'"
  proof (rule map_cong [OF refl])
    fix a assume a: "a \<in> set ar'"
    with i1 have "is_arg a" by (simp add: list_all_iff)
    moreover from a p1 have "am (arg_name a) = None" by (auto intro: out)
    ultimately show "arg_name (?g a) = arg_name a" by (rule arg_name_kept)
  qed
  have a2: "map_option (\<lambda>a. arg_name (?g a)) va' = map_option arg_name va'"
  proof (cases va')
    case None
    then show ?thesis by simp
  next
    case (Some a)
    with i2 have "is_arg a" by simp
    moreover from Some p2 have "am (arg_name a) = None" by (auto intro: out)
    ultimately show ?thesis unfolding Some by (simp add: arg_name_kept)
  qed
  have a3: "map_option (\<lambda>a. arg_name (?g a)) kw' = map_option arg_name kw'"
  proof (cases kw')
    case None
    then show ?thesis by simp
  next
    case (Some a)
    with i3 have "is_arg a" by simp
    moreover from Some p3 have "am (arg_name a) = None" by (auto intro: out)
    ultimately show ?thesis unfolding Some by (simp add: arg_name_kept)
  qed
  have "normalized_tree (FunctionDef asy p f (Arguments po ar va ko kd kw de) body decs ret) =
      Some (?g (FunctionDef asy p ''FUNC'' (Arguments po ar' va' ko kd kw' de) body decs ret))"
    unfolding normalized_tree.simps rp nm_def by (simp add: Let_def)
  then show ?thesis
    by (simp add: comp_def option.map_comp a1 a2 a3 n1 n2 n3)
qed

lemma nth_pos_in:
  "x \<in> set xs \<Longrightarrow> pos_in xs x < length xs \<and> xs ! pos_in xs x = x"
  unfolding pos_in_def by (induction xs) auto

lemma seen_order_first:
  "distinct (seen_order xs) \<and> set (seen_order xs) = set xs"
  unfolding seen_order_def
  using distinct_foldl_add_seen [of "[]" xs] set_foldl_add_seen [of "[]" xs] by simp

text \<open>
  Every \<^verbatim>\<open>Name\<close> node that the second loop visits: \<^verbatim>\<open>True\<close>, \<^verbatim>\<open>False\<close> and \<^verbatim>\<open>None\<close>
  stay, a key of \<^verbatim>\<open>arg_map\<close> gets its entry, and any other identifier gets \<^verbatim>\<open>VAR\<close> with
  its index in the order of first occurrence, the same at every occurrence.
\<close>

lemma normalized_names:
  assumes rp: "rename_params args = (am, args')"
    and n: "n = FunctionDef asy p ''FUNC'' args' body decs ret"
    and seen: "seen = seen_order (free_idents am (walk n))"
  shows "\<exists>t. normalized_tree (FunctionDef asy p f args body decs ret) = Some t \<and>
      length (walk t) = length (walk n) \<and>
      (\<forall>k<length (walk n). \<forall>q x c. walk n ! k = Name q x c \<longrightarrow>
         walk t ! k = Name no_position
           (if literal_name x then x
            else case am x of
              Some ph \<Rightarrow> ph
            | None \<Rightarrow> ''VAR'' @ str_nat (pos_in seen x)) c)"
proof -
  define nm where "nm = assign_names am (walk n)"
  let ?g = "\<lambda>t. strip (rename_tree am nm t)"
  have nm: "nm = var_map seen" unfolding nm_def seen by (rule assign_names_eq)
  have nt: "normalized_tree (FunctionDef asy p f args body decs ret) = Some (?g n)"
    unfolding normalized_tree.simps rp nm_def n by (simp add: Let_def)
  have w: "walk (?g n) = map ?g (walk n)" by (rule walk_normalized)
  have names: "walk (?g n) ! k = Name no_position
           (if literal_name x then x
            else case am x of
              Some ph \<Rightarrow> ph
            | None \<Rightarrow> ''VAR'' @ str_nat (pos_in seen x)) c"
    if k: "k < length (walk n)" and nd: "walk n ! k = Name q x c" for k q x c
  proof -
    from k nd have g: "walk (?g n) ! k = Name no_position (rename_ident am nm x) c"
      unfolding w by simp
    have "rename_ident am nm x = ''VAR'' @ str_nat (pos_in seen x)"
      if nl: "\<not> literal_name x" and na: "am x = None"
    proof -
      from k nd have "Name q x c \<in> set (walk n)" by (metis nth_mem)
      moreover from nl na have "x \<in> set (free_ident am (Name q x c))" by simp
      ultimately have "x \<in> set (free_idents am (walk n))"
        unfolding free_idents_def by (simp only: set_concat set_map) blast
      then have "x \<in> set seen" unfolding seen by (simp add: seen_order_first)
      then show ?thesis by (simp add: rename_ident_def nl na nm var_map_def)
    qed
    then show ?thesis unfolding g by (auto simp: rename_ident_def split: option.splits)
  qed
  show ?thesis
    by (intro exI [of _ "?g n"] conjI allI impI nt names) (simp_all add: w)
qed

section \<open>Aborted runs and skipped files\<close>

text \<open>
  Claim C9, as stated: the tools abort before producing output if and only if the scan
  root does not exist. With an existing root and an output path that cannot be created,
  \<^verbatim>\<open>out_dir.mkdir\<close> raises and both tools end with a non-zero exit before any report is
  written.
\<close>

theorem abort_with_existing_root:
  "root_exists ex_env_no_out \<and>
   exact_main ex_dump (\<lambda>s. s) ex_env_no_out = Inl Uncaught_exception \<and>
   exit_code (exact_main ex_dump (\<lambda>s. s) ex_env_no_out) = 1 \<and>
   near_main ex_deepcopy ex_dump unit_ratio (Finite (3/4)) ex_env_no_out = Inl Uncaught_exception \<and>
   exit_code (near_main ex_deepcopy ex_dump unit_ratio (Finite (3/4)) ex_env_no_out) = 1"
  by (simp add: ex_env_no_out_def exact_main_def near_main_def)

text \<open>
  The same happens with an existing root when the listing of the files raises. And with
  an output directory that is there but cannot be written to, \<^verbatim>\<open>mkdir\<close> succeeds, the
  scan runs, and the first \<^verbatim>\<open>write_text\<close> raises: a non-zero exit again.
\<close>

lemma abort_in_listing_or_reports:
  "root_exists ex_env_no_listing \<and> out_dir_ok ex_env_no_listing \<and>
   exact_main ex_dump (\<lambda>s. s) ex_env_no_listing = Inl Uncaught_exception \<and>
   near_main ex_deepcopy ex_dump unit_ratio (Finite (3/4)) ex_env_no_listing = Inl Uncaught_exception \<and>
   root_exists ex_env_read_only \<and> out_dir_ok ex_env_read_only \<and>
   exact_main ex_dump (\<lambda>s. s) ex_env_read_only = Inl Report_failed \<and>
   exit_code (exact_main ex_dump (\<lambda>s. s) ex_env_read_only) = 1 \<and>
   near_main ex_deepcopy ex_dump unit_ratio (Finite (3/4)) ex_env_read_only = Inl Report_failed \<and>
   exit_code (near_main ex_deepcopy ex_dump unit_ratio (Finite (3/4)) ex_env_read_only) = 1"
proof -
  have r: "exact_records ex_dump (\<lambda>s. s) (files (ex_env\<lparr>reports_ok := False\<rparr>)) =
      exact_records ex_dump (\<lambda>s. s) (files ex_env)"
    by simp
  have "exact_main ex_dump (\<lambda>s. s) ex_env_read_only = Inl Report_failed"
    unfolding ex_env_read_only_def exact_main_eq r ex_env_records by (simp add: ex_env_def)
  moreover have "exact_main ex_dump (\<lambda>s. s) ex_env_no_listing = Inl Uncaught_exception"
    by (simp add: ex_env_no_listing_def exact_main_def ex_env_def)
  moreover have "near_main ex_deepcopy ex_dump unit_ratio (Finite (3/4)) ex_env_no_listing =
      Inl Uncaught_exception"
    by (simp add: ex_env_no_listing_def near_main_def ex_env_def)
  moreover have "near_main ex_deepcopy ex_dump unit_ratio (Finite (3/4)) ex_env_read_only =
      Inl Report_failed"
    by (simp add: ex_env_read_only_def near_main_def Let_def ex_env_def)
  ultimately show ?thesis
    by (simp add: ex_env_read_only_def ex_env_no_listing_def ex_env_def)
qed

text \<open>
  The exact-match tool catches only \<^verbatim>\<open>SyntaxError\<close> around \<^verbatim>\<open>ast.parse\<close>, the
  near-duplicate tool every exception: on a file whose parse raises \<^verbatim>\<open>RecursionError\<close>
  the first aborts and the second goes on.
\<close>

lemma exact_main_parse_crash:
  "root_exists ex_env_crash \<and>
   exact_main ex_dump (\<lambda>s. s) ex_env_crash = Inl Uncaught_exception \<and>
   (\<exists>ps. near_main ex_deepcopy ex_dump unit_ratio (Finite (3/4)) ex_env_crash = Inr ps)"
  by (simp add: ex_env_crash_def exact_main_eq near_main_def)

lemma collect_file_failed:
  "\<not> is_parsed f \<Longrightarrow> collect_file deepcopy dump f = []"
  by (auto simp: collect_file_def is_parsed_def split: file_result.splits)

lemma near_main_eq:
  "near_main deepcopy dump ratio threshold e =
     (if \<not> root_exists e then Inl Root_not_found
      else if \<not> out_dir_ok e \<or> \<not> listing_ok e then Inl Uncaught_exception
      else if \<not> reports_ok e then Inl Report_failed
      else Inr (near_pairs ratio threshold
        (collect_functions deepcopy dump (filter is_parsed (files e)))))"
  by (simp add: near_main_def Let_def collect_functions_parsed)

text \<open>
  Claim C9, amended. Both tools abort with a non-zero exit, before any report is written,
  when the scan root does not exist, and also when the output directory cannot be
  created or the files under the root cannot be listed; they abort with a non-zero exit
  as well when writing the reports or printing their paths raises. A file that cannot be
  read or parsed contributes no record to the near-duplicate tool, and a file that cannot
  be read or whose parse raises \<^verbatim>\<open>SyntaxError\<close> contributes none to the exact-match tool.
  The near-duplicate tool completes with exit code 0 exactly when the root exists, the
  output directory is created, the files are listed and the reports are written and
  announced, and it then reports on the records of the files that parsed. The
  exact-match tool completes with exit code 0 exactly when, in addition, no parse raises
  an exception other than \<^verbatim>\<open>SyntaxError\<close> and every function of the parsed files
  serializes, and it then reports on the records of those files.
\<close>

theorem abort_and_skip:
  "(\<not> root_exists e \<longrightarrow>
      exact_main dump hash_text e = Inl Root_not_found \<and>
      near_main deepcopy dump ratio threshold e = Inl Root_not_found \<and>
      exit_code (exact_main dump hash_text e) \<noteq> 0 \<and>
      exit_code (near_main deepcopy dump ratio threshold e) \<noteq> 0) \<and>
   (root_exists e \<and> (\<not> out_dir_ok e \<or> \<not> listing_ok e) \<longrightarrow>
      exact_main dump hash_text e = Inl Uncaught_exception \<and>
      near_main deepcopy dump ratio threshold e = Inl Uncaught_exception) \<and>
   (root_exists e \<and> out_dir_ok e \<and> listing_ok e \<and> \<not> reports_ok e \<longrightarrow>
      near_main deepcopy dump ratio threshold e = Inl Report_failed \<and>
      (exact_main dump hash_text e = Inl Report_failed \<or>
       exact_main dump hash_text e = Inl Uncaught_exception)) \<and>
   (\<not> is_parsed f \<longrightarrow> collect_file deepcopy dump f = []) \<and>
   extract_functions dump hash_text Unreadable = Inr [] \<and>
   extract_functions dump hash_text Syntax_error = Inr [] \<and>
   (exit_code (near_main deepcopy dump ratio threshold e) = 0 \<longleftrightarrow>
      root_exists e \<and> out_dir_ok e \<and> listing_ok e \<and> reports_ok e) \<and>
   (root_exists e \<and> out_dir_ok e \<and> listing_ok e \<and> reports_ok e \<longrightarrow>
      near_main deepcopy dump ratio threshold e =
        Inr (near_pairs ratio threshold (collect_functions deepcopy dump (filter is_parsed (files e))))) \<and>
   (exit_code (exact_main dump hash_text e) = 0 \<longleftrightarrow>
      root_exists e \<and> out_dir_ok e \<and> listing_ok e \<and> reports_ok e \<and>
      Parse_crash \<notin> snd ` set (files e) \<and>
      exact_records dump hash_text (filter is_parsed (files e)) \<noteq> None) \<and>
   (root_exists e \<and> out_dir_ok e \<and> listing_ok e \<and> reports_ok e \<and>
    Parse_crash \<notin> snd ` set (files e) \<and>
    exact_records dump hash_text (filter is_parsed (files e)) = Some recs \<longrightarrow>
      exact_main dump hash_text e = Inr (dupes_of (build_index recs)))"
proof -
  have a: "\<not> root_exists e \<longrightarrow>
      exact_main dump hash_text e = Inl Root_not_found \<and>
      near_main deepcopy dump ratio threshold e = Inl Root_not_found \<and>
      exit_code (exact_main dump hash_text e) \<noteq> 0 \<and>
      exit_code (near_main deepcopy dump ratio threshold e) \<noteq> 0"
    by (simp add: exact_main_def near_main_def)
  have a': "root_exists e \<and> (\<not> out_dir_ok e \<or> \<not> listing_ok e) \<longrightarrow>
      exact_main dump hash_text e = Inl Uncaught_exception \<and>
      near_main deepcopy dump ratio threshold e = Inl Uncaught_exception"
    by (auto simp: exact_main_def near_main_def)
  have a'': "root_exists e \<and> out_dir_ok e \<and> listing_ok e \<and> \<not> reports_ok e \<longrightarrow>
      near_main deepcopy dump ratio threshold e = Inl Report_failed \<and>
      (exact_main dump hash_text e = Inl Report_failed \<or>
       exact_main dump hash_text e = Inl Uncaught_exception)"
    by (auto simp: near_main_eq exact_main_eq split: option.splits)
  have b: "\<not> is_parsed f \<longrightarrow> collect_file deepcopy dump f = []"
    by (simp add: collect_file_failed)
  have c: "extract_functions dump hash_text Unreadable = Inr []"
    "extract_functions dump hash_text Syntax_error = Inr []"
    by (simp_all add: extract_functions_def)
  have d: "exit_code (near_main deepcopy dump ratio threshold e) = 0 \<longleftrightarrow>
      root_exists e \<and> out_dir_ok e \<and> listing_ok e \<and> reports_ok e"
    by (auto simp: near_main_eq)
  have d': "root_exists e \<and> out_dir_ok e \<and> listing_ok e \<and> reports_ok e \<longrightarrow>
      near_main deepcopy dump ratio threshold e =
        Inr (near_pairs ratio threshold (collect_functions deepcopy dump (filter is_parsed (files e))))"
    by (simp add: near_main_eq)
  have e: "exit_code (exact_main dump hash_text e) = 0 \<longleftrightarrow>
      root_exists e \<and> out_dir_ok e \<and> listing_ok e \<and> reports_ok e \<and>
      Parse_crash \<notin> snd ` set (files e) \<and>
      exact_records dump hash_text (filter is_parsed (files e)) \<noteq> None"
    by (auto simp: exact_main_eq exact_records_parsed split: option.splits)
  have e': "root_exists e \<and> out_dir_ok e \<and> listing_ok e \<and> reports_ok e \<and>
    Parse_crash \<notin> snd ` set (files e) \<and>
    exact_records dump hash_text (filter is_parsed (files e)) = Some recs \<longrightarrow>
      exact_main dump hash_text e = Inr (dupes_of (build_index recs))"
    by (simp add: exact_main_eq exact_records_parsed)
  from a a' a'' b c d d' e e' show ?thesis by blast
qed

theorem abort_and_skip_witness:
  "\<not> root_exists (ex_env\<lparr>root_exists := False\<rparr>) \<and>
   exact_main ex_dump (\<lambda>s. s) (ex_env\<lparr>root_exists := False\<rparr>) = Inl Root_not_found \<and>
   near_main ex_deepcopy ex_dump unit_ratio (Finite (3/4)) (ex_env\<lparr>root_exists := False\<rparr>) =
     Inl Root_not_found \<and>
   root_exists ex_env_no_out \<and> \<not> out_dir_ok ex_env_no_out \<and>
   exact_main ex_dump (\<lambda>s. s) ex_env_no_out = Inl Uncaught_exception \<and>
   root_exists ex_env_read_only \<and> out_dir_ok ex_env_read_only \<and> listing_ok ex_env_read_only \<and>
   \<not> reports_ok ex_env_read_only \<and>
   near_main ex_deepcopy ex_dump unit_ratio (Finite (3/4)) ex_env_read_only = Inl Report_failed \<and>
   exit_code (near_main ex_deepcopy ex_dump unit_ratio (Finite (3/4)) ex_env_read_only) = 1 \<and>
   exit_code (exact_main ex_dump (\<lambda>s. s) ex_env_read_only) = 1 \<and>
   \<not> is_parsed (''broken.py'', Syntax_error) \<and>
   collect_file ex_deepcopy ex_dump (''broken.py'', Syntax_error) = [] \<and>
   root_exists ex_env \<and> out_dir_ok ex_env \<and> listing_ok ex_env \<and> reports_ok ex_env \<and>
   Parse_crash \<notin> snd ` set (files ex_env) \<and>
   filter is_parsed (files ex_env) =
     [(''a.py'', Parsed [ex_duplicate 1]), (''b.py'', Parsed [ex_duplicate 3])] \<and>
   exact_records ex_dump (\<lambda>s. s) (filter is_parsed (files ex_env)) =
     Some [(show_ast (strip (ex_duplicate 1)), \<lparr>path = ''a.py'', name = ''duplicate'', lineno = None\<rparr>),
           (show_ast (strip (ex_duplicate 1)), \<lparr>path = ''b.py'', name = ''duplicate'', lineno = None\<rparr>)] \<and>
   exact_main ex_dump (\<lambda>s. s) ex_env = Inr [ex_group] \<and>
   exit_code (exact_main ex_dump (\<lambda>s. s) ex_env) = 0 \<and>
   near_main ex_deepcopy ex_dump unit_ratio (Finite (3/4)) ex_env =
     Inr (near_pairs unit_ratio (Finite (3/4))
       (collect_functions ex_deepcopy ex_dump
          [(''a.py'', Parsed [ex_duplicate 1]), (''b.py'', Parsed [ex_duplicate 3])])) \<and>
   exit_code (near_main ex_deepcopy ex_dump unit_ratio (Finite (3/4)) ex_env) = 0"
proof -
  let ?recs = "[(show_ast (strip (ex_duplicate 1)), \<lparr>path = ''a.py'', name = ''duplicate'', lineno = None\<rparr>),
        (show_ast (strip (ex_duplicate 1)), \<lparr>path = ''b.py'', name = ''duplicate'', lineno = None\<rparr>)]"
  have h0: "\<not> root_exists (ex_env\<lparr>root_exists := False\<rparr>)" by simp
  have h0': "root_exists ex_env_no_out \<and> \<not> out_dir_ok ex_env_no_out" by (simp add: ex_env_no_out_def)
  have h0'': "root_exists ex_env_read_only \<and> out_dir_ok ex_env_read_only \<and>
      listing_ok ex_env_read_only \<and> \<not> reports_ok ex_env_read_only"
    by (simp add: ex_env_read_only_def ex_env_def)
  have h1: "\<not> is_parsed (''broken.py'', Syntax_error)" by (simp add: is_parsed_def)
  have h2: "root_exists ex_env \<and> out_dir_ok ex_env \<and> listing_ok ex_env \<and> reports_ok ex_env"
    by (simp add: ex_env_def)
  have h3: "Parse_crash \<notin> snd ` set (files ex_env)" by (simp add: ex_env_def)
  have h4: "filter is_parsed (files ex_env) =
      [(''a.py'', Parsed [ex_duplicate 1]), (''b.py'', Parsed [ex_duplicate 3])]"
    by (simp add: ex_env_def is_parsed_def)
  have h5: "exact_records ex_dump (\<lambda>s. s) (filter is_parsed (files ex_env)) = Some ?recs"
    by (simp only: exact_records_parsed ex_env_records)
  have k1: "exact_main ex_dump (\<lambda>s. s) (ex_env\<lparr>root_exists := False\<rparr>) = Inl Root_not_found \<and>
      near_main ex_deepcopy ex_dump unit_ratio (Finite (3/4)) (ex_env\<lparr>root_exists := False\<rparr>) =
        Inl Root_not_found"
    using abort_and_skip [of "ex_env\<lparr>root_exists := False\<rparr>" ex_dump "\<lambda>s. s" ex_deepcopy unit_ratio
      "Finite (3/4)" "(''broken.py'', Syntax_error)" ?recs] h0
    by blast
  have k2: "exact_main ex_dump (\<lambda>s. s) ex_env_no_out = Inl Uncaught_exception"
    using abort_and_skip [of ex_env_no_out ex_dump "\<lambda>s. s" ex_deepcopy unit_ratio
      "Finite (3/4)" "(''broken.py'', Syntax_error)" ?recs] h0'
    by blast
  have k3: "near_main ex_deepcopy ex_dump unit_ratio (Finite (3/4)) ex_env_read_only = Inl Report_failed \<and>
      (exact_main ex_dump (\<lambda>s. s) ex_env_read_only = Inl Report_failed \<or>
       exact_main ex_dump (\<lambda>s. s) ex_env_read_only = Inl Uncaught_exception)"
    using abort_and_skip [of ex_env_read_only ex_dump "\<lambda>s. s" ex_deepcopy unit_ratio
      "Finite (3/4)" "(''broken.py'', Syntax_error)" ?recs] h0''
    by blast
  have k4: "collect_file ex_deepcopy ex_dump (''broken.py'', Syntax_error) = [] \<and>
      exit_code (near_main ex_deepcopy ex_dump unit_ratio (Finite (3/4)) ex_env) = 0 \<and>
      near_main ex_deepcopy ex_dump unit_ratio (Finite (3/4)) ex_env =
        Inr (near_pairs unit_ratio (Finite (3/4))
          (collect_functions ex_deepcopy ex_dump (filter is_parsed (files ex_env)))) \<and>
      exit_code (exact_main ex_dump (\<lambda>s. s) ex_env) = 0 \<and>
      exact_main ex_dump (\<lambda>s. s) ex_env = Inr (dupes_of (build_index ?recs))"
    using abort_and_skip [of ex_env ex_dump "\<lambda>s. s" ex_deepcopy unit_ratio "Finite (3/4)"
      "(''broken.py'', Syntax_error)" ?recs] h1 h2 h3 h5
    by auto
  from k3 have k3': "exit_code (near_main ex_deepcopy ex_dump unit_ratio (Finite (3/4)) ex_env_read_only) = 1 \<and>
      exit_code (exact_main ex_dump (\<lambda>s. s) ex_env_read_only) = 1"
    by auto
  from k4 have k5: "exact_main ex_dump (\<lambda>s. s) ex_env = Inr [ex_group]"
    by (simp add: build_index_def dupes_of_def ex_group_def)
  from k4 h4 have k6: "near_main ex_deepcopy ex_dump unit_ratio (Finite (3/4)) ex_env =
     Inr (near_pairs unit_ratio (Finite (3/4))
       (collect_functions ex_deepcopy ex_dump
          [(''a.py'', Parsed [ex_duplicate 1]), (''b.py'', Parsed [ex_duplicate 3])]))"
    by simp
  from h0 h0' h0'' h1 h2 h3 h4 h5 k1 k2 k3 k3' k4 k5 k6 show ?thesis by simp
qed

end
